theory Spec2Isabelle
  imports Complex_Main
begin

section \<open>Binary floating-point numbers\<close>

text \<open>
  The components of \<open>Vector2\<close> and \<open>Vector3\<close> are C++ \<open>float\<close>s, and some member
  functions compute in \<open>double\<close>. Both are modelled as IEEE-754 binary formats with
  round-to-nearest, ties-to-even, every operation rounded to its own format.

  A format gives the precision \<open>prec\<close> (bits of the significand) and the range
  \<open>qmin .. qmax\<close> of the exponent of an integral significand: a finite number is
  \<open>(-1)^s * m * 2^q\<close> with \<open>m < 2^prec\<close> and \<open>qmin \<le> q \<le> qmax\<close>; it is written with the
  largest \<open>m\<close> possible, so \<open>2^(prec-1) \<le> m\<close> unless \<open>q = qmin\<close> (subnormal numbers and
  zero, which is \<open>m = 0\<close>, \<open>q = qmin\<close>).
\<close>

record format =
  prec :: nat
  qmin :: int
  qmax :: int

definition binary32 :: format where
  "binary32 = \<lparr>prec = 24, qmin = - 149, qmax = 104\<rparr>"

definition binary64 :: format where
  "binary64 = \<lparr>prec = 53, qmin = - 1074, qmax = 971\<rparr>"

text \<open>The sign is \<open>True\<close> for a set sign bit (negative numbers, \<open>-0\<close>, \<open>-\<infinity>\<close>).\<close>

datatype fp = NaN | Inf bool | Fin bool nat int

definition is_finite :: "fp \<Rightarrow> bool" where
  "is_finite a = (case a of Fin s m q \<Rightarrow> True | Inf s \<Rightarrow> False | NaN \<Rightarrow> False)"

definition is_float :: "format \<Rightarrow> fp \<Rightarrow> bool" where
  "is_float f a =
     (case a of
        Fin s m q \<Rightarrow>
          m < 2 ^ prec f \<and> qmin f \<le> q \<and> q \<le> qmax f \<and> (q = qmin f \<or> 2 ^ (prec f - 1) \<le> m)
      | Inf s \<Rightarrow> True
      | NaN \<Rightarrow> True)"

text \<open>
  The number of binary digits of a natural number; long numbers are counted 64 digits at
  a time.
\<close>

fun bitlen :: "nat \<Rightarrow> nat" where
  "bitlen n =
     (if n = 0 then 0
      else if n < 2 ^ 64 then Suc (bitlen (n div 2))
      else 64 + bitlen (n div 2 ^ 64))"

declare bitlen.simps [simp del]

text \<open>
  \<open>round_shift M d\<close> drops the \<open>d\<close> lowest bits of \<open>M\<close>, rounding to nearest and a tie to
  the even neighbour: \<open>round_up m0 r h\<close> rounds the quotient \<open>m0\<close> with remainder \<open>r\<close>, where
  \<open>h\<close> is half of the divisor.
\<close>

definition round_up :: "nat \<Rightarrow> nat \<Rightarrow> nat \<Rightarrow> nat" where
  "round_up m0 r h = (if h < r \<or> (r = h \<and> odd m0) then m0 + 1 else m0)"

definition round_shift :: "nat \<Rightarrow> nat \<Rightarrow> nat" where
  "round_shift M d = (if d = 0 then M else round_up (M div 2 ^ d) (M mod 2 ^ d) (2 ^ (d - 1)))"

text \<open>
  \<open>rnd f s M E\<close> is the number of format \<open>f\<close> nearest to \<open>(-1)^s * M * 2^E\<close>. The exponent
  \<open>q\<close> of the result is that of a significand of \<open>prec f\<close> bits, or \<open>qmin f\<close> when that is
  too small (\<open>rnd\<close>); the significand is \<open>M\<close> brought to that exponent (\<open>rnd_at\<close>); a
  significand that rounds up to \<open>2^prec\<close> moves to the next exponent, and a result beyond
  \<open>qmax f\<close> overflows to infinity (\<open>pack\<close>).
\<close>

definition pack :: "format \<Rightarrow> bool \<Rightarrow> nat \<Rightarrow> int \<Rightarrow> fp" where
  "pack f s m q =
     (if m = 2 ^ prec f
      then (if qmax f < q + 1 then Inf s else Fin s (2 ^ (prec f - 1)) (q + 1))
      else (if qmax f < q then Inf s else Fin s m q))"

definition rnd_at :: "format \<Rightarrow> bool \<Rightarrow> nat \<Rightarrow> int \<Rightarrow> int \<Rightarrow> fp" where
  "rnd_at f s M E q =
     pack f s (if q \<le> E then M * 2 ^ nat (E - q) else round_shift M (nat (q - E))) q"

definition rnd :: "format \<Rightarrow> bool \<Rightarrow> nat \<Rightarrow> int \<Rightarrow> fp" where
  "rnd f s M E =
     (if M = 0 then Fin s 0 (qmin f)
      else rnd_at f s M E (max (qmin f) (E + int (bitlen M) - int (prec f))))"

text \<open>The integer \<open>(-1)^s * m * 2^(q - q0)\<close>, for comparing and adding at a common exponent.\<close>

definition scaled :: "int \<Rightarrow> bool \<Rightarrow> nat \<Rightarrow> int \<Rightarrow> int" where
  "scaled q0 s m q = (if s then - 1 else 1) * int m * 2 ^ nat (q - q0)"

subsection \<open>Arithmetic\<close>

fun fneg :: "fp \<Rightarrow> fp" where
  "fneg NaN = NaN"
| "fneg (Inf s) = Inf (\<not> s)"
| "fneg (Fin s m q) = Fin (\<not> s) m q"

fun fabs :: "fp \<Rightarrow> fp" where
  "fabs NaN = NaN"
| "fabs (Inf s) = Inf False"
| "fabs (Fin s m q) = Fin False m q"

text \<open>
  A sum that is exactly zero is \<open>+0\<close>, except that \<open>(-0) + (-0) = -0\<close>; opposite infinities
  have no sum.
\<close>

definition rnd_int :: "format \<Rightarrow> bool \<Rightarrow> int \<Rightarrow> int \<Rightarrow> fp" where
  "rnd_int f z c q0 = (if c = 0 then Fin z 0 (qmin f) else rnd f (c < 0) (nat \<bar>c\<bar>) q0)"

fun fadd :: "format \<Rightarrow> fp \<Rightarrow> fp \<Rightarrow> fp" where
  "fadd f (Fin s m q) (Fin t n k) =
     rnd_int f (s \<and> t) (scaled (min q k) s m q + scaled (min q k) t n k) (min q k)"
| "fadd f (Inf s) (Inf t) = (if s = t then Inf s else NaN)"
| "fadd f (Inf s) (Fin t n k) = Inf s"
| "fadd f (Fin s m q) (Inf t) = Inf t"
| "fadd f NaN b = NaN"
| "fadd f a NaN = NaN"

definition fsub :: "format \<Rightarrow> fp \<Rightarrow> fp \<Rightarrow> fp" where
  "fsub f a b = fadd f a (fneg b)"

fun fmul :: "format \<Rightarrow> fp \<Rightarrow> fp \<Rightarrow> fp" where
  "fmul f (Fin s m q) (Fin t n k) = rnd f (s \<noteq> t) (m * n) (q + k)"
| "fmul f (Inf s) (Inf t) = Inf (s \<noteq> t)"
| "fmul f (Inf s) (Fin t n k) = (if n = 0 then NaN else Inf (s \<noteq> t))"
| "fmul f (Fin s m q) (Inf t) = (if m = 0 then NaN else Inf (s \<noteq> t))"
| "fmul f NaN b = NaN"
| "fmul f a NaN = NaN"

text \<open>
  The fused multiply-add \<open>fma(a, b, c)\<close>: \<open>a*b + c\<close> with one rounding, that of the sum. The
  product of two finite numbers enters the sum exactly; a product with an infinite
  operand is infinite or invalid as for \<open>fmul\<close>, and nothing is left to round.
\<close>

fun ffma :: "format \<Rightarrow> fp \<Rightarrow> fp \<Rightarrow> fp \<Rightarrow> fp" where
  "ffma f (Fin s m q) (Fin t n k) (Fin u l j) =
     rnd_int f ((s \<noteq> t) \<and> u)
       (scaled (min (q + k) j) (s \<noteq> t) (m * n) (q + k) + scaled (min (q + k) j) u l j)
       (min (q + k) j)"
| "ffma f (Fin s m q) (Fin t n k) (Inf u) = Inf u"
| "ffma f (Fin s m q) (Fin t n k) NaN = NaN"
| "ffma f (Fin s m q) (Inf t) c = fadd f (fmul f (Fin s m q) (Inf t)) c"
| "ffma f (Inf s) (Fin t n k) c = fadd f (fmul f (Inf s) (Fin t n k)) c"
| "ffma f (Inf s) (Inf t) c = fadd f (Inf (s \<noteq> t)) c"
| "ffma f NaN b c = NaN"
| "ffma f a NaN c = NaN"

text \<open>
  Division and square root are not exact in binary: the quotient (the root) is computed
  to at least \<open>prec f + 2\<close> bits and one more bit, the lowest, records whether anything was
  left over, which is all that rounding to nearest needs. \<open>rnd_quot f s N D E\<close> is the
  number of format \<open>f\<close> nearest to \<open>(-1)^s * (N / D) * 2^E\<close>, for \<open>D\<close> other than 0.
\<close>

definition with_sticky :: "nat \<Rightarrow> bool \<Rightarrow> nat" where
  "with_sticky Q exact = 2 * Q + (if exact then 0 else 1)"

definition rnd_quot_sh :: "format \<Rightarrow> bool \<Rightarrow> nat \<Rightarrow> nat \<Rightarrow> int \<Rightarrow> nat \<Rightarrow> fp" where
  "rnd_quot_sh f s N D E sh =
     rnd f s (with_sticky (N * 2 ^ sh div D) (N * 2 ^ sh mod D = 0)) (E - int sh - 1)"

definition rnd_quot :: "format \<Rightarrow> bool \<Rightarrow> nat \<Rightarrow> nat \<Rightarrow> int \<Rightarrow> fp" where
  "rnd_quot f s N D E = rnd_quot_sh f s N D E (prec f + 2 + bitlen D)"

fun fdiv :: "format \<Rightarrow> fp \<Rightarrow> fp \<Rightarrow> fp" where
  "fdiv f (Fin s m q) (Fin t n k) =
     (if n = 0 then (if m = 0 then NaN else Inf (s \<noteq> t))
      else rnd_quot f (s \<noteq> t) m n (q - k))"
| "fdiv f (Inf s) (Inf t) = NaN"
| "fdiv f (Inf s) (Fin t n k) = Inf (s \<noteq> t)"
| "fdiv f (Fin s m q) (Inf t) = Fin (s \<noteq> t) 0 (qmin f)"
| "fdiv f NaN b = NaN"
| "fdiv f a NaN = NaN"

text \<open>The integer square root, rounded down.\<close>

definition isqrt_step :: "nat \<Rightarrow> nat \<Rightarrow> nat" where
  "isqrt_step r n = (if (r + 1) * (r + 1) \<le> n then r + 1 else r)"

fun isqrt :: "nat \<Rightarrow> nat" where
  "isqrt n = (if n < 2 then n else isqrt_step (2 * isqrt (n div 4)) n)"

declare isqrt.simps [simp del]

definition rnd_root :: "format \<Rightarrow> nat \<Rightarrow> nat \<Rightarrow> int \<Rightarrow> fp" where
  "rnd_root f N r E = rnd f False (with_sticky r (r * r = N)) (E - 1)"

definition rnd_sqrt_sh :: "format \<Rightarrow> nat \<Rightarrow> int \<Rightarrow> nat \<Rightarrow> fp" where
  "rnd_sqrt_sh f m q sh = rnd_root f (m * 2 ^ sh) (isqrt (m * 2 ^ sh)) ((q - int sh) div 2)"

fun fsqrt :: "format \<Rightarrow> fp \<Rightarrow> fp" where
  "fsqrt f (Fin s m q) =
     (if m = 0 then Fin s 0 (qmin f)
      else if s then NaN
      else rnd_sqrt_sh f m q (2 * (prec f + 2) + nat (q mod 2)))"
| "fsqrt f (Inf s) = (if s then NaN else Inf False)"
| "fsqrt f NaN = NaN"

text \<open>Conversion between the formats: the value, rounded to the target format.\<close>

fun fcvt :: "format \<Rightarrow> fp \<Rightarrow> fp" where
  "fcvt f (Fin s m q) = rnd f s m q"
| "fcvt f (Inf s) = Inf s"
| "fcvt f NaN = NaN"

subsection \<open>Comparison\<close>

text \<open>Comparisons are by value (\<open>-0\<close> equals \<open>+0\<close>); every comparison with a NaN is false.\<close>

fun flt :: "fp \<Rightarrow> fp \<Rightarrow> bool" where
  "flt (Fin s m q) (Fin t n k) = (scaled (min q k) s m q < scaled (min q k) t n k)"
| "flt (Inf s) (Inf t) = (s \<and> \<not> t)"
| "flt (Inf s) (Fin t n k) = s"
| "flt (Fin s m q) (Inf t) = (\<not> t)"
| "flt NaN b = False"
| "flt a NaN = False"

fun fle :: "fp \<Rightarrow> fp \<Rightarrow> bool" where
  "fle (Fin s m q) (Fin t n k) = (scaled (min q k) s m q \<le> scaled (min q k) t n k)"
| "fle (Inf s) (Inf t) = (s \<or> \<not> t)"
| "fle (Inf s) (Fin t n k) = s"
| "fle (Fin s m q) (Inf t) = (\<not> t)"
| "fle NaN b = False"
| "fle a NaN = False"

definition fgt :: "fp \<Rightarrow> fp \<Rightarrow> bool" where
  "fgt a b = flt b a"

text \<open>Two numbers that differ at most in the sign of a zero.\<close>

definition same_magnitude :: "fp \<Rightarrow> fp \<Rightarrow> bool" where
  "same_magnitude a b =
     (case a of
        Fin s m q \<Rightarrow>
          (case b of Fin t n k \<Rightarrow> m = n \<and> q = k \<and> (s = t \<or> m = 0) | Inf t \<Rightarrow> False | NaN \<Rightarrow> False)
      | Inf s \<Rightarrow> (case b of Fin t n k \<Rightarrow> False | Inf t \<Rightarrow> s = t | NaN \<Rightarrow> False)
      | NaN \<Rightarrow> (case b of Fin t n k \<Rightarrow> False | Inf t \<Rightarrow> False | NaN \<Rightarrow> True))"

subsection \<open>The value of a number\<close>

text \<open>The real number a finite floating-point number stands for.\<close>

fun valof :: "fp \<Rightarrow> real" where
  "valof (Fin s m q) = (if s then - 1 else 1) * real m * 2 powi q"
| "valof (Inf s) = 0"
| "valof NaN = 0"


subsection \<open>The types \<open>float\<close> and \<open>double\<close>\<close>

text \<open>
  An operation on two \<open>float\<close>s rounds to \<open>binary32\<close>, an operation with a \<open>double\<close>
  operand converts the other operand and rounds to \<open>binary64\<close>.

  Every operation is rounded by itself: this is the code as a compiler builds it when it
  does not contract floating-point expressions (\<open>g++ -ffp-contract=off\<close>, or any target
  without a fused multiply-add instruction). A compiler that contracts (\<open>g++ -O2 -mfma\<close>)
  turns a product that is an operand of a sum or difference into one fused multiply-add,
  \<open>fmaf\<close> for \<open>float\<close>, which does not round the product. The results of \<open>det\<close> and \<open>cross\<close>
  for equal or parallel arguments depend on this, so both are given twice below: as
  written (\<open>det\<close>, \<open>cross\<close>) and as contracted (\<open>det_fma\<close>, \<open>cross_fma\<close>).
\<close>

abbreviation addf :: "fp \<Rightarrow> fp \<Rightarrow> fp" where "addf \<equiv> fadd binary32"
abbreviation subf :: "fp \<Rightarrow> fp \<Rightarrow> fp" where "subf \<equiv> fsub binary32"
abbreviation mulf :: "fp \<Rightarrow> fp \<Rightarrow> fp" where "mulf \<equiv> fmul binary32"
abbreviation divf :: "fp \<Rightarrow> fp \<Rightarrow> fp" where "divf \<equiv> fdiv binary32"
abbreviation sqrtf :: "fp \<Rightarrow> fp" where "sqrtf \<equiv> fsqrt binary32"
abbreviation fmaf :: "fp \<Rightarrow> fp \<Rightarrow> fp \<Rightarrow> fp" where "fmaf \<equiv> ffma binary32"
abbreviation to_float :: "fp \<Rightarrow> fp" where "to_float \<equiv> fcvt binary32"

abbreviation addd :: "fp \<Rightarrow> fp \<Rightarrow> fp" where "addd \<equiv> fadd binary64"
abbreviation subd :: "fp \<Rightarrow> fp \<Rightarrow> fp" where "subd \<equiv> fsub binary64"
abbreviation muld :: "fp \<Rightarrow> fp \<Rightarrow> fp" where "muld \<equiv> fmul binary64"
abbreviation divd :: "fp \<Rightarrow> fp \<Rightarrow> fp" where "divd \<equiv> fdiv binary64"
abbreviation sqrtd :: "fp \<Rightarrow> fp" where "sqrtd \<equiv> fsqrt binary64"
abbreviation to_double :: "fp \<Rightarrow> fp" where "to_double \<equiv> fcvt binary64"

text \<open>The literals \<open>n.0f\<close> and \<open>n.0\<close> of a natural number \<open>n\<close>.\<close>

definition f32 :: "nat \<Rightarrow> fp" where
  "f32 n = rnd binary32 False n 0"

definition f64 :: "nat \<Rightarrow> fp" where
  "f64 n = rnd binary64 False n 0"

text \<open>
  \<open>FLT_EPSILON\<close> is not defined in the two headers; it is the constant of \<open><cfloat>\<close>,
  \<open>2^-23\<close>, the distance from \<open>1.0f\<close> to the next \<open>float\<close>.
\<close>

definition FLT_EPSILON :: fp where
  "FLT_EPSILON = Fin False (2 ^ 23) (- 46)"

text \<open>\<open>#define M_PI 3.1415926535897932384626433832795\<close>: a \<open>double\<close> literal.\<close>

definition M_PI :: fp where
  "M_PI = rnd_quot binary64 False 31415926535897932384626433832795 (10 ^ 31) 0"

text \<open>
  \<open>pow(a, 2)\<close> for a \<open>float\<close> \<open>a\<close>: \<open><cmath>\<close> converts both arguments to \<open>double\<close>, and the
  result is the square, which is exact in \<open>double\<close> for every finite \<open>float\<close>.
\<close>

definition pow_2 :: "fp \<Rightarrow> fp" where
  "pow_2 a = muld (to_double a) (to_double a)"

section \<open>Vector2\<close>

text \<open>The members \<open>x_\<close> and \<open>y_\<close>; the accessors \<open>x()\<close> and \<open>y()\<close> return them.\<close>

record Vector2 =
  x_coord :: fp
  y_coord :: fp

text \<open>The constructors \<open>Vector2()\<close> and \<open>Vector2(float x, float y)\<close>.\<close>

definition Vector2_default :: Vector2 where
  "Vector2_default = \<lparr>x_coord = f32 0, y_coord = f32 0\<rparr>"

definition Vector2_of :: "fp \<Rightarrow> fp \<Rightarrow> Vector2" where
  "Vector2_of x y = \<lparr>x_coord = x, y_coord = y\<rparr>"

text \<open>\<open>Vector2 operator-() const\<close>\<close>

definition Vector2_neg :: "Vector2 \<Rightarrow> Vector2" where
  "Vector2_neg v = \<lparr>x_coord = fneg (x_coord v), y_coord = fneg (y_coord v)\<rparr>"

text \<open>\<open>float operator*(const Vector2& vector) const\<close>, the dot product\<close>

definition Vector2_dot :: "Vector2 \<Rightarrow> Vector2 \<Rightarrow> fp" where
  "Vector2_dot v w = addf (mulf (x_coord v) (x_coord w)) (mulf (y_coord v) (y_coord w))"

text \<open>\<open>Vector2 operator*(float s) const\<close>\<close>

definition Vector2_mul :: "Vector2 \<Rightarrow> fp \<Rightarrow> Vector2" where
  "Vector2_mul v s = \<lparr>x_coord = mulf (x_coord v) s, y_coord = mulf (y_coord v) s\<rparr>"

text \<open>\<open>Vector2 operator/(float s) const\<close>\<close>

definition Vector2_div :: "Vector2 \<Rightarrow> fp \<Rightarrow> Vector2" where
  "Vector2_div v s =
     (let invS = divf (f32 1) s
      in \<lparr>x_coord = mulf (x_coord v) invS, y_coord = mulf (y_coord v) invS\<rparr>)"

text \<open>\<open>Vector2 operator+(const Vector2& vector) const\<close>\<close>

definition Vector2_add :: "Vector2 \<Rightarrow> Vector2 \<Rightarrow> Vector2" where
  "Vector2_add v w =
     \<lparr>x_coord = addf (x_coord v) (x_coord w), y_coord = addf (y_coord v) (y_coord w)\<rparr>"

text \<open>\<open>Vector2 operator-(const Vector2& vector) const\<close>\<close>

definition Vector2_sub :: "Vector2 \<Rightarrow> Vector2 \<Rightarrow> Vector2" where
  "Vector2_sub v w =
     \<lparr>x_coord = subf (x_coord v) (x_coord w), y_coord = subf (y_coord v) (y_coord w)\<rparr>"

text \<open>\<open>bool operator==(const Vector2& vector) const\<close>\<close>

definition Vector2_eq :: "Vector2 \<Rightarrow> Vector2 \<Rightarrow> bool" where
  "Vector2_eq v w \<longleftrightarrow>
     flt (fabs (subf (x_coord v) (x_coord w))) FLT_EPSILON
     \<and> flt (fabs (subf (y_coord v) (y_coord w))) FLT_EPSILON"

text \<open>\<open>bool operator!=(const Vector2& vector) const\<close>\<close>

definition Vector2_ne :: "Vector2 \<Rightarrow> Vector2 \<Rightarrow> bool" where
  "Vector2_ne v w \<longleftrightarrow>
     fgt (fabs (subf (x_coord v) (x_coord w))) FLT_EPSILON
     \<and> fgt (fabs (subf (y_coord v) (y_coord w))) FLT_EPSILON"

text \<open>
  The in-place operators change the object \<open>this\<close> points to and return a reference to
  it. Objects live in a store, from addresses to values; the argument of \<open>+=\<close> and \<open>-=\<close>
  is a reference too and may be the receiver itself, so each statement reads the store as
  the statement before left it.
\<close>

type_synonym addr = nat

text \<open>\<open>Vector2& operator*=(float s)\<close>\<close>

definition Vector2_mul_assign :: "(addr \<Rightarrow> Vector2) \<Rightarrow> addr \<Rightarrow> fp \<Rightarrow> addr \<times> (addr \<Rightarrow> Vector2)" where
  "Vector2_mul_assign h this s =
     (let h1 = h(this := (h this)\<lparr>x_coord := mulf (x_coord (h this)) s\<rparr>);
          h2 = h1(this := (h1 this)\<lparr>y_coord := mulf (y_coord (h1 this)) s\<rparr>)
      in (this, h2))"

text \<open>\<open>Vector2& operator/=(float s)\<close>\<close>

definition Vector2_div_assign :: "(addr \<Rightarrow> Vector2) \<Rightarrow> addr \<Rightarrow> fp \<Rightarrow> addr \<times> (addr \<Rightarrow> Vector2)" where
  "Vector2_div_assign h this s =
     (let invS = divf (f32 1) s;
          h1 = h(this := (h this)\<lparr>x_coord := mulf (x_coord (h this)) invS\<rparr>);
          h2 = h1(this := (h1 this)\<lparr>y_coord := mulf (y_coord (h1 this)) invS\<rparr>)
      in (this, h2))"

text \<open>\<open>Vector2& operator+=(const Vector2& vector)\<close>\<close>

definition Vector2_add_assign :: "(addr \<Rightarrow> Vector2) \<Rightarrow> addr \<Rightarrow> addr \<Rightarrow> addr \<times> (addr \<Rightarrow> Vector2)" where
  "Vector2_add_assign h this vector =
     (let h1 = h(this := (h this)\<lparr>x_coord := addf (x_coord (h this)) (x_coord (h vector))\<rparr>);
          h2 = h1(this := (h1 this)\<lparr>y_coord := addf (y_coord (h1 this)) (y_coord (h1 vector))\<rparr>)
      in (this, h2))"

text \<open>\<open>Vector2& operator-=(const Vector2& vector)\<close>\<close>

definition Vector2_sub_assign :: "(addr \<Rightarrow> Vector2) \<Rightarrow> addr \<Rightarrow> addr \<Rightarrow> addr \<times> (addr \<Rightarrow> Vector2)" where
  "Vector2_sub_assign h this vector =
     (let h1 = h(this := (h this)\<lparr>x_coord := subf (x_coord (h this)) (x_coord (h vector))\<rparr>);
          h2 = h1(this := (h1 this)\<lparr>y_coord := subf (y_coord (h1 this)) (y_coord (h1 vector))\<rparr>)
      in (this, h2))"

text \<open>
  \<open>Vector2 normalized()\<close>: \<open>length\<close> is a \<open>double\<close> (the type of \<open>sqrt\<close> of a \<open>double\<close>), so the
  comparison and the two divisions are done in \<open>double\<close>, and the constructor converts
  the quotients to \<open>float\<close>.
\<close>

definition normalized :: "Vector2 \<Rightarrow> Vector2" where
  "normalized v =
     (let length = sqrtd (addd (pow_2 (x_coord v)) (pow_2 (y_coord v)))
      in if flt length (to_double FLT_EPSILON) then v
         else \<lparr>x_coord = to_float (divd (to_double (x_coord v)) length),
               y_coord = to_float (divd (to_double (y_coord v)) length)\<rparr>)"

text \<open>
  \<open>double polarAngle() const\<close>. The library function \<open>atan2\<close> is a parameter: \<open>atan2 b a\<close> is
  the \<open>double\<close> that the call \<open>atan2(b, a)\<close> with two \<open>float\<close>s returns.
\<close>

definition polarAngle :: "(fp \<Rightarrow> fp \<Rightarrow> fp) \<Rightarrow> Vector2 \<Rightarrow> fp" where
  "polarAngle atan2 v = atan2 (y_coord v) (x_coord v)"

text \<open>\<open>double angleTo(Vector2 *other) const\<close>\<close>

definition angleTo :: "(fp \<Rightarrow> fp \<Rightarrow> fp) \<Rightarrow> Vector2 \<Rightarrow> Vector2 \<Rightarrow> fp" where
  "angleTo atan2 v other =
     (let angleThis = polarAngle atan2 v;
          angleOther = polarAngle atan2 other;
          diffAngle = subd angleOther angleThis
      in if fgt diffAngle M_PI then subd diffAngle M_PI
         else if fle diffAngle (fneg M_PI) then addd diffAngle (muld (f64 2) M_PI)
         else diffAngle)"

text \<open>
  The angle as the specification words it: the difference of the two \<open>atan2\<close> values, less
  \<open>\<pi>\<close> when it is above \<open>\<pi>\<close>, plus \<open>2\<pi>\<close> when it is at or below \<open>-\<pi>\<close>, and itself otherwise.
\<close>

definition angleTo_spec :: "(fp \<Rightarrow> fp \<Rightarrow> fp) \<Rightarrow> Vector2 \<Rightarrow> Vector2 \<Rightarrow> fp" where
  "angleTo_spec atan2 t other =
     (let d = subd (atan2 (y_coord other) (x_coord other)) (atan2 (y_coord t) (x_coord t))
      in if fgt d M_PI then subd d M_PI
         else if fle d (fneg M_PI) then addd d (muld (f64 2) M_PI)
         else d)"

text \<open>The free functions \<open>abs\<close>, \<open>absSq\<close>, \<open>det\<close> and \<open>getLength\<close> of \<open>Vector2.h\<close>.\<close>

definition abs_Vector2 :: "Vector2 \<Rightarrow> fp" where
  "abs_Vector2 v = sqrtf (Vector2_dot v v)"

definition absSq_Vector2 :: "Vector2 \<Rightarrow> fp" where
  "absSq_Vector2 v = Vector2_dot v v"

definition det :: "Vector2 \<Rightarrow> Vector2 \<Rightarrow> fp" where
  "det v w = subf (mulf (x_coord v) (y_coord w)) (mulf (y_coord v) (x_coord w))"

text \<open>
  \<open>det\<close> as built with contraction: the difference
  \<open>vector1.x() * vector2.y() - vector1.y() * vector2.x()\<close> becomes
  \<open>fmaf(vector1.x(), vector2.y(), -(vector1.y() * vector2.x()))\<close>. The second product is
  rounded to \<open>float\<close>, the first is not.
\<close>

definition det_fma :: "Vector2 \<Rightarrow> Vector2 \<Rightarrow> fp" where
  "det_fma v w = fmaf (x_coord v) (y_coord w) (fneg (mulf (y_coord v) (x_coord w)))"


section \<open>Vector3\<close>

text \<open>The member \<open>float val_[3]\<close>; \<open>vector[i]\<close> reads \<open>val_[i]\<close>.\<close>

record Vector3 =
  val_0 :: fp
  val_1 :: fp
  val_2 :: fp

text \<open>The constructors \<open>Vector3()\<close> and \<open>Vector3(float vx, float vy, float vz)\<close>.\<close>

definition Vector3_default :: Vector3 where
  "Vector3_default = \<lparr>val_0 = f32 0, val_1 = f32 0, val_2 = f32 0\<rparr>"

definition Vector3_of :: "fp \<Rightarrow> fp \<Rightarrow> fp \<Rightarrow> Vector3" where
  "Vector3_of vx vy vz = \<lparr>val_0 = vx, val_1 = vy, val_2 = vz\<rparr>"

text \<open>\<open>Vector3 operator-() const\<close>\<close>

definition Vector3_neg :: "Vector3 \<Rightarrow> Vector3" where
  "Vector3_neg v = \<lparr>val_0 = fneg (val_0 v), val_1 = fneg (val_1 v), val_2 = fneg (val_2 v)\<rparr>"

text \<open>\<open>float operator*(const Vector3& vector) const\<close>, the dot product\<close>

definition Vector3_dot :: "Vector3 \<Rightarrow> Vector3 \<Rightarrow> fp" where
  "Vector3_dot v w =
     addf (addf (mulf (val_0 v) (val_0 w)) (mulf (val_1 v) (val_1 w))) (mulf (val_2 v) (val_2 w))"

text \<open>\<open>Vector3 operator*(float scalar) const\<close>\<close>

definition Vector3_mul :: "Vector3 \<Rightarrow> fp \<Rightarrow> Vector3" where
  "Vector3_mul v scalar =
     \<lparr>val_0 = mulf (val_0 v) scalar, val_1 = mulf (val_1 v) scalar, val_2 = mulf (val_2 v) scalar\<rparr>"

text \<open>\<open>Vector3 operator/(float scalar) const\<close>\<close>

definition Vector3_div :: "Vector3 \<Rightarrow> fp \<Rightarrow> Vector3" where
  "Vector3_div v scalar =
     (let invScalar = divf (f32 1) scalar
      in \<lparr>val_0 = mulf (val_0 v) invScalar, val_1 = mulf (val_1 v) invScalar,
          val_2 = mulf (val_2 v) invScalar\<rparr>)"

text \<open>\<open>Vector3 operator+(const Vector3& vector) const\<close>\<close>

definition Vector3_add :: "Vector3 \<Rightarrow> Vector3 \<Rightarrow> Vector3" where
  "Vector3_add v w =
     \<lparr>val_0 = addf (val_0 v) (val_0 w), val_1 = addf (val_1 v) (val_1 w),
      val_2 = addf (val_2 v) (val_2 w)\<rparr>"

text \<open>\<open>Vector3 operator-(const Vector3& vector) const\<close>\<close>

definition Vector3_sub :: "Vector3 \<Rightarrow> Vector3 \<Rightarrow> Vector3" where
  "Vector3_sub v w =
     \<lparr>val_0 = subf (val_0 v) (val_0 w), val_1 = subf (val_1 v) (val_1 w),
      val_2 = subf (val_2 v) (val_2 w)\<rparr>"

text \<open>\<open>bool operator==(const Vector3& vector) const\<close>\<close>

definition Vector3_eq :: "Vector3 \<Rightarrow> Vector3 \<Rightarrow> bool" where
  "Vector3_eq v w \<longleftrightarrow>
     flt (fabs (subf (val_0 v) (val_0 w))) FLT_EPSILON
     \<and> flt (fabs (subf (val_1 v) (val_1 w))) FLT_EPSILON
     \<and> flt (fabs (subf (val_2 v) (val_2 w))) FLT_EPSILON"

text \<open>\<open>bool operator!=(const Vector3& vector) const\<close>\<close>

definition Vector3_ne :: "Vector3 \<Rightarrow> Vector3 \<Rightarrow> bool" where
  "Vector3_ne v w \<longleftrightarrow>
     fgt (fabs (subf (val_0 v) (val_0 w))) FLT_EPSILON
     \<and> fgt (fabs (subf (val_1 v) (val_1 w))) FLT_EPSILON
     \<and> fgt (fabs (subf (val_2 v) (val_2 w))) FLT_EPSILON"

text \<open>\<open>Vector3& operator*=(float scalar)\<close>\<close>

definition Vector3_mul_assign :: "(addr \<Rightarrow> Vector3) \<Rightarrow> addr \<Rightarrow> fp \<Rightarrow> addr \<times> (addr \<Rightarrow> Vector3)" where
  "Vector3_mul_assign h this scalar =
     (let h1 = h(this := (h this)\<lparr>val_0 := mulf (val_0 (h this)) scalar\<rparr>);
          h2 = h1(this := (h1 this)\<lparr>val_1 := mulf (val_1 (h1 this)) scalar\<rparr>);
          h3 = h2(this := (h2 this)\<lparr>val_2 := mulf (val_2 (h2 this)) scalar\<rparr>)
      in (this, h3))"

text \<open>\<open>Vector3& operator/=(float scalar)\<close>\<close>

definition Vector3_div_assign :: "(addr \<Rightarrow> Vector3) \<Rightarrow> addr \<Rightarrow> fp \<Rightarrow> addr \<times> (addr \<Rightarrow> Vector3)" where
  "Vector3_div_assign h this scalar =
     (let invScalar = divf (f32 1) scalar;
          h1 = h(this := (h this)\<lparr>val_0 := mulf (val_0 (h this)) invScalar\<rparr>);
          h2 = h1(this := (h1 this)\<lparr>val_1 := mulf (val_1 (h1 this)) invScalar\<rparr>);
          h3 = h2(this := (h2 this)\<lparr>val_2 := mulf (val_2 (h2 this)) invScalar\<rparr>)
      in (this, h3))"

text \<open>\<open>Vector3& operator+=(const Vector3& vector)\<close>\<close>

definition Vector3_add_assign :: "(addr \<Rightarrow> Vector3) \<Rightarrow> addr \<Rightarrow> addr \<Rightarrow> addr \<times> (addr \<Rightarrow> Vector3)" where
  "Vector3_add_assign h this vector =
     (let h1 = h(this := (h this)\<lparr>val_0 := addf (val_0 (h this)) (val_0 (h vector))\<rparr>);
          h2 = h1(this := (h1 this)\<lparr>val_1 := addf (val_1 (h1 this)) (val_1 (h1 vector))\<rparr>);
          h3 = h2(this := (h2 this)\<lparr>val_2 := addf (val_2 (h2 this)) (val_2 (h2 vector))\<rparr>)
      in (this, h3))"

text \<open>\<open>Vector3& operator-=(const Vector3& vector)\<close>\<close>

definition Vector3_sub_assign :: "(addr \<Rightarrow> Vector3) \<Rightarrow> addr \<Rightarrow> addr \<Rightarrow> addr \<times> (addr \<Rightarrow> Vector3)" where
  "Vector3_sub_assign h this vector =
     (let h1 = h(this := (h this)\<lparr>val_0 := subf (val_0 (h this)) (val_0 (h vector))\<rparr>);
          h2 = h1(this := (h1 this)\<lparr>val_1 := subf (val_1 (h1 this)) (val_1 (h1 vector))\<rparr>);
          h3 = h2(this := (h2 this)\<lparr>val_2 := subf (val_2 (h2 this)) (val_2 (h2 vector))\<rparr>)
      in (this, h3))"

text \<open>The free functions \<open>cross\<close>, \<open>abs\<close> and \<open>absSq\<close> of \<open>Vector3.h\<close>.\<close>

definition cross :: "Vector3 \<Rightarrow> Vector3 \<Rightarrow> Vector3" where
  "cross v w =
     \<lparr>val_0 = subf (mulf (val_1 v) (val_2 w)) (mulf (val_2 v) (val_1 w)),
      val_1 = subf (mulf (val_2 v) (val_0 w)) (mulf (val_0 v) (val_2 w)),
      val_2 = subf (mulf (val_0 v) (val_1 w)) (mulf (val_1 v) (val_0 w))\<rparr>"

text \<open>
  \<open>cross\<close> as built with contraction: each component \<open>a*b - c*d\<close> becomes
  \<open>fmaf(a, b, -(c*d))\<close>.
\<close>

definition cross_fma :: "Vector3 \<Rightarrow> Vector3 \<Rightarrow> Vector3" where
  "cross_fma v w =
     \<lparr>val_0 = fmaf (val_1 v) (val_2 w) (fneg (mulf (val_2 v) (val_1 w))),
      val_1 = fmaf (val_2 v) (val_0 w) (fneg (mulf (val_0 v) (val_2 w))),
      val_2 = fmaf (val_0 v) (val_1 w) (fneg (mulf (val_1 v) (val_0 w)))\<rparr>"

definition abs_Vector3 :: "Vector3 \<Rightarrow> fp" where
  "abs_Vector3 v = sqrtf (Vector3_dot v v)"

definition absSq_Vector3 :: "Vector3 \<Rightarrow> fp" where
  "absSq_Vector3 v = Vector3_dot v v"

section \<open>Evaluating the arithmetic\<close>

lemmas fp_eval =
  binary32_def binary64_def rnd_def rnd_at_def pack_def round_up_def round_shift_def
  rnd_int_def with_sticky_def rnd_quot_sh_def rnd_quot_def rnd_root_def rnd_sqrt_sh_def
  scaled_def bitlen.simps isqrt.simps isqrt_step_def fsub_def fgt_def
  f32_def f64_def FLT_EPSILON_def pow_2_def

lemma f32_values:
  "f32 0 = Fin False 0 (- 149)"
  "f32 1 = Fin False 8388608 (- 23)"
  "f32 (Suc 0) = Fin False 8388608 (- 23)"
  "f32 2 = Fin False 8388608 (- 22)"
  "f32 3 = Fin False 12582912 (- 22)"
  "f32 4 = Fin False 8388608 (- 21)"
  "f32 5 = Fin False 10485760 (- 21)"
  by (simp_all add: fp_eval)

lemma M_PI_value: "M_PI = Fin False 7074237752028440 (- 51)"
  by (simp add: M_PI_def fp_eval)

text \<open>
  Known values of single and double precision: \<open>1/3\<close> is \<open>0x3EAAAAAB\<close>, the square root of
  2 is \<open>0x3FB504F3\<close> and, in double precision, \<open>0x3FF6A09E667F3BCD\<close>; \<open>2^24 + 1\<close> is a
  tie and rounds to the even \<open>2^24\<close>; the largest \<open>float\<close> doubled overflows.
\<close>

lemma known_values:
  "divf (f32 1) (f32 3) = Fin False 11184811 (- 25)"
  "sqrtf (f32 2) = Fin False 11863283 (- 23)"
  "sqrtd (f64 2) = Fin False 6369051672525773 (- 52)"
  "f32 16777217 = Fin False 8388608 1"
  "addf (Fin False 16777215 104) (Fin False 16777215 104) = Inf False"
  "subf (Fin False 8388609 (- 23)) (f32 1) = FLT_EPSILON"
  by (simp_all add: fp_eval)

section \<open>Facts about the arithmetic\<close>

lemma qmin_binary32: "qmin binary32 = - 149"
  by (simp add: binary32_def)

lemma rnd_int_zero: "rnd_int f z 0 q = Fin z 0 (qmin f)"
  by (simp add: rnd_int_def)

text \<open>A finite number and its negation add up to \<open>+0\<close>.\<close>

lemma fadd_fneg_self: "fadd f (Fin s m q) (fneg (Fin s m q)) = Fin False 0 (qmin f)"
  by (simp add: scaled_def rnd_int_zero)

lemma fsub_self: "fsub f a a = (if is_finite a then Fin False 0 (qmin f) else NaN)"
  by (cases a) (simp_all add: fsub_def is_finite_def scaled_def rnd_int_zero)

lemma fmul_commute: "fmul f a b = fmul f b a"
proof (cases a; cases b)
  fix s m q t n k
  assume ab: "a = Fin s m q" "b = Fin t n k"
  have "(s \<noteq> t) = (t \<noteq> s)" by auto
  with ab show ?thesis
    by (simp add: mult.commute add.commute)
qed auto

lemma near_zero: "flt (fabs (subf (Fin False 0 (- 149)) (f32 0))) FLT_EPSILON"
  by (simp add: fp_eval)

text \<open>Rounding is symmetric: it works on the magnitude and keeps the sign.\<close>

lemma scaled_neg: "scaled q0 (\<not> s) m q = - scaled q0 s m q"
  by (simp add: scaled_def)

lemma fneg_pack: "fneg (pack f s m q) = pack f (\<not> s) m q"
  by (simp add: pack_def)

lemma fneg_rnd: "fneg (rnd f s M E) = rnd f (\<not> s) M E"
  by (simp add: rnd_def rnd_at_def fneg_pack)

lemma same_magnitude_refl: "same_magnitude a a"
  by (cases a) (simp_all add: same_magnitude_def)

lemma same_magnitude_rnd_int:
  "same_magnitude (rnd_int f z c q0) (fneg (rnd_int f z' (- c) q0))"
proof (cases "c = 0")
  case True
  then show ?thesis by (simp add: rnd_int_def same_magnitude_def)
next
  case False
  then have "(\<not> 0 < c) = (c < 0)" by auto
  with False show ?thesis
    by (simp add: rnd_int_def fneg_rnd same_magnitude_refl)
qed

text \<open>\<open>a - b\<close> and \<open>-(b - a)\<close> differ at most in the sign of a zero.\<close>

lemma fsub_swap: "same_magnitude (fsub f a b) (fneg (fsub f b a))"
proof (cases a; cases b)
  fix s m q t n k
  assume ab: "a = Fin s m q" "b = Fin t n k"
  have "scaled (min k q) t n k + scaled (min k q) (\<not> s) m q
        = - (scaled (min q k) s m q + scaled (min q k) (\<not> t) n k)"
    by (simp add: scaled_neg min.commute)
  with ab show ?thesis
    using same_magnitude_rnd_int [of f "s \<and> \<not> t"
        "scaled (min q k) s m q + scaled (min q k) (\<not> t) n k" "min q k" "t \<and> \<not> s"]
    by (simp add: fsub_def min.commute)
qed (auto simp: fsub_def same_magnitude_def)

text \<open>
  Two \<open>float\<close>s of the same magnitude pass the test \<open>fabs(a - b) < FLT_EPSILON\<close> exactly when
  they are finite.
\<close>

lemma close_if_same_magnitude:
  assumes "same_magnitude a b"
  shows "flt (fabs (subf a b)) FLT_EPSILON \<longleftrightarrow> is_finite a"
proof (cases a; cases b)
  fix s m q t n k
  assume ab: "a = Fin s m q" "b = Fin t n k"
  with assms have e: "n = m" "k = q" "s = t \<or> m = 0"
    by (auto simp: same_magnitude_def)
  then have "scaled q s m q + scaled q (\<not> t) m q = 0"
    by (auto simp: scaled_def)
  then have "subf a b = Fin (s \<and> \<not> t) 0 (- 149)"
    using ab e by (simp add: fsub_def rnd_int_zero qmin_binary32)
  then show ?thesis
    using ab by (simp add: is_finite_def FLT_EPSILON_def scaled_def)
qed (use assms in \<open>auto simp: same_magnitude_def is_finite_def fsub_def\<close>)

lemma cancel_component:
  "flt (fabs (subf (addf a (fneg a)) (f32 0))) FLT_EPSILON \<longleftrightarrow> is_finite a"
proof (cases a)
  case (Fin s m q)
  then show ?thesis
    using fadd_fneg_self [of binary32 s m q] near_zero
    by (simp add: is_finite_def qmin_binary32)
qed (simp_all add: is_finite_def fsub_def)

subsection \<open>Rounding a number of the format gives that number\<close>

lemma bitlen_0 [simp]: "bitlen 0 = 0"
  by (simp add: bitlen.simps)

lemma bitlen_upper: "n < 2 ^ bitlen n"
proof (induction n rule: bitlen.induct)
  case (1 n)
  show ?case
  proof (cases "n = 0")
    case True
    then show ?thesis by simp
  next
    case nz: False
    show ?thesis
    proof (cases "n < 2 ^ 64")
      case True
      with nz 1 have "n div 2 < 2 ^ bitlen (n div 2)" by simp
      then have "n < 2 * 2 ^ bitlen (n div 2)" by linarith
      with nz True show ?thesis by (subst bitlen.simps) simp
    next
      case False
      with nz 1 have "n div 2 ^ 64 < 2 ^ bitlen (n div 2 ^ 64)" by simp
      then have "n < 2 ^ 64 * 2 ^ bitlen (n div 2 ^ 64)"
        by (simp add: less_mult_imp_div_less div_less_iff_less_mult mult.commute)
      with nz False show ?thesis by (subst bitlen.simps) (simp add: power_add)
    qed
  qed
qed

lemma bitlen_lower: "0 < n \<Longrightarrow> 2 ^ bitlen n \<le> 2 * n"
proof (induction n rule: bitlen.induct)
  case (1 n)
  then have nz: "n \<noteq> 0" by simp
  show ?case
  proof (cases "n < 2 ^ 64")
    case True
    show ?thesis
    proof (cases "n div 2 = 0")
      case True
      with nz have "n = 1" by (simp add: div_eq_0_iff) 
      then show ?thesis by (simp add: bitlen.simps)
    next
      case False
      with nz True 1 have "2 ^ bitlen (n div 2) \<le> 2 * (n div 2)" by simp
      then have "2 * 2 ^ bitlen (n div 2) \<le> 2 * n" by linarith
      with nz True show ?thesis by (subst bitlen.simps) simp
    qed
  next
    case False
    then have "0 < n div 2 ^ 64" by (simp add: div_greater_zero_iff)
    with nz False 1 have "2 ^ bitlen (n div 2 ^ 64) \<le> 2 * (n div 2 ^ 64)" by simp
    then have "2 ^ 64 * 2 ^ bitlen (n div 2 ^ 64) \<le> 2 * (2 ^ 64 * (n div 2 ^ 64))" by simp
    also have "\<dots> \<le> 2 * n" by simp
    finally show ?thesis using nz False by (subst bitlen.simps) (simp add: power_add)
  qed
qed

lemma bitlen_unique:
  assumes "n < 2 ^ k" "2 ^ k \<le> 2 * n"
  shows "bitlen n = k"
proof -
  have n0: "0 < n" using assms by (cases "n = 0") auto
  have "(2::nat) ^ k < 2 ^ (bitlen n + 1)"
    using assms(2) bitlen_upper [of n] by simp
  then have a: "k < bitlen n + 1"
    using power_less_imp_less_exp [of 2 k "bitlen n + 1"] by simp
  have "(2::nat) ^ bitlen n < 2 ^ (k + 1)"
    using assms(1) bitlen_lower [OF n0] by simp
  then have b: "bitlen n < k + 1"
    using power_less_imp_less_exp [of 2 "bitlen n" "k + 1"] by simp
  from a b show ?thesis by simp
qed

lemma bitlen_shift: "0 < n \<Longrightarrow> bitlen (n * 2 ^ k) = bitlen n + k"
  by (rule bitlen_unique) (use bitlen_upper [of n] bitlen_lower [of n] in \<open>simp_all add: power_add\<close>)


lemma bitlen_le: "n < 2 ^ k \<Longrightarrow> bitlen n \<le> k"
proof (cases "n = 0")
  case False
  assume "n < 2 ^ k"
  with False have "(2::nat) ^ bitlen n < 2 ^ (k + 1)"
    using bitlen_lower [of n] by simp
  then have "bitlen n < k + 1"
    using power_less_imp_less_exp [of 2 "bitlen n" "k + 1"] by simp
  then show ?thesis by simp
qed simp

lemma powi_split: "q \<le> E \<Longrightarrow> (2::real) powi E = 2 powi q * 2 ^ nat (E - q)"
proof -
  assume "q \<le> E"
  have "(2::real) powi E = 2 powi (q + (E - q))" by simp
  also have "\<dots> = 2 powi q * 2 powi (E - q)" by (rule power_int_add) simp
  also have "(2::real) powi (E - q) = 2 ^ nat (E - q)"
    using \<open>q \<le> E\<close> by (simp add: power_int_def)
  finally show ?thesis .
qed

lemma same_value_shift:
  assumes "q \<le> E" "real m * 2 powi q = real M * 2 powi E"
  shows "m = M * 2 ^ nat (E - q)"
proof -
  have "real m * 2 powi q = real (M * 2 ^ nat (E - q)) * 2 powi q"
    using assms by (simp add: powi_split [OF assms(1)])
  then have "real m = real (M * 2 ^ nat (E - q))" by simp
  then show ?thesis by (simp only: of_nat_eq_iff)
qed

lemma round_shift_exact: "round_shift (m * 2 ^ d) d = m"
  by (cases "d = 0") (simp_all add: round_shift_def round_up_def)

lemma rnd_exact:
  assumes fl: "is_float f (Fin s m q)" and eq: "real m * 2 powi q = real M * 2 powi E"
  shows "rnd f s M E = Fin s m q"
proof (cases "M = 0")
  case True
  with eq have "m = 0" by simp
  with fl have "q = qmin f" by (simp add: is_float_def)
  with True \<open>m = 0\<close> show ?thesis by (simp add: rnd_def)
next
  case False
  with eq have m0: "0 < m" by (cases "m = 0") auto
  from False have M0: "0 < M" by simp
  from fl have r: "m < 2 ^ prec f" "qmin f \<le> q" "q \<le> qmax f" "q = qmin f \<or> 2 ^ (prec f - 1) \<le> m"
    by (simp_all add: is_float_def)
  have bl: "E + int (bitlen M) = q + int (bitlen m)"
  proof (cases "q \<le> E")
    case True
    then have "m = M * 2 ^ nat (E - q)" using eq by (rule same_value_shift)
    then have "bitlen m = bitlen M + nat (E - q)" using bitlen_shift [OF M0] by simp
    with True show ?thesis by simp
  next
    case False
    then have le: "E \<le> q" by simp
    then have "M = m * 2 ^ nat (q - E)" using eq [symmetric] by (rule same_value_shift)
    then have "bitlen M = bitlen m + nat (q - E)" using bitlen_shift [OF m0] by simp
    with le show ?thesis by simp
  qed
  have qs: "max (qmin f) (E + int (bitlen M) - int (prec f)) = q"
  proof (cases "q = qmin f")
    case True
    have "bitlen m \<le> prec f" using r(1) by (rule bitlen_le)
    with True bl show ?thesis by simp
  next
    case False
    with r have lo: "2 ^ (prec f - 1) \<le> m" by simp
    have "prec f \<noteq> 0" using r(1) m0 by (cases "prec f = 0") auto
    then have "(2::nat) ^ prec f = 2 * 2 ^ (prec f - 1)" by (cases "prec f") simp_all
    with lo have "2 ^ prec f \<le> 2 * m" by simp
    with r(1) have "bitlen m = prec f" by (rule bitlen_unique)
    with bl r(2) show ?thesis by simp
  qed
  have sig: "(if q \<le> E then M * 2 ^ nat (E - q) else round_shift M (nat (q - E))) = m"
  proof (cases "q \<le> E")
    case True
    then show ?thesis using same_value_shift [OF True eq] by simp
  next
    case False
    then have le: "E \<le> q" by simp
    have "M = m * 2 ^ nat (q - E)" using le eq [symmetric] by (rule same_value_shift)
    then have "round_shift M (nat (q - E)) = m" by (simp add: round_shift_exact)
    with False show ?thesis by simp
  qed
  have "pack f s m q = Fin s m q" using r by (simp add: pack_def)
  with False qs sig show ?thesis by (simp add: rnd_def rnd_at_def)
qed


lemma isqrt_bounds: "isqrt n * isqrt n \<le> n \<and> n < (isqrt n + 1) * (isqrt n + 1)"
proof (induction n rule: isqrt.induct)
  case (1 n)
  show ?case
  proof (cases "n < 2")
    case True
    then have "isqrt n = n" by (subst isqrt.simps) simp
    moreover have "n = 0 \<or> n = 1" using True by auto
    ultimately show ?thesis by auto
  next
    case False
    define r where "r = isqrt (n div 4)"
    from False 1 have ih: "r * r \<le> n div 4" "n div 4 < (r + 1) * (r + 1)"
      by (simp_all add: r_def)
    have lo: "(2 * r) * (2 * r) \<le> n" using ih(1) by simp
    have "n div 4 + 1 \<le> (r + 1) * (r + 1)" using ih(2) by simp
    then have "4 * (n div 4) + 4 \<le> (2 * r + 2) * (2 * r + 2)" by (simp add: algebra_simps)
    then have hi: "n < (2 * r + 2) * (2 * r + 2)" by linarith
    have "isqrt n = isqrt_step (2 * r) n"
      using False by (subst isqrt.simps) (simp add: r_def)
    then show ?thesis
      using lo hi by (auto simp: isqrt_step_def not_le)
  qed
qed


lemma float_is_double:
  assumes "is_float binary32 (Fin s m q)"
  shows "\<exists>m' q'. is_float binary64 (Fin t m' q') \<and> real m' * 2 powi q' = real m * 2 powi q"
proof (cases "m = 0")
  case True
  have "is_float binary64 (Fin t 0 (- 1074))" by (simp add: is_float_def binary64_def)
  with True show ?thesis by (intro exI [of _ 0] exI [of _ "- 1074"]) simp
next
  case False
  from assms have r: "m < 2 ^ 24" "- 149 \<le> q" "q \<le> 104"
    by (simp_all add: is_float_def binary32_def)
  have bl: "bitlen m \<le> 24" using r(1) by (rule bitlen_le)
  define k where "k = 53 - bitlen m"
  define P where "P = m * 2 ^ k"
  have kb: "bitlen m + k = 53" "k \<le> 53" using bl by (simp_all add: k_def)
  have "bitlen P = 53" using False kb by (simp add: bitlen_shift P_def)
  then have "P < 2 ^ 53" "2 ^ 53 \<le> 2 * P"
    using bitlen_upper [of P] bitlen_lower [of P] False by (simp_all add: P_def)
  then have up: "P < 9007199254740992" and lo: "4503599627370496 \<le> P" by simp_all
  have "- 1074 \<le> q - int k" "q - int k \<le> 971" using r kb by linarith+
  then have fl: "is_float binary64 (Fin t P (q - int k))"
    using up lo by (simp add: is_float_def binary64_def)
  have "(2::real) powi q = 2 powi (q - int k) * 2 ^ nat (q - (q - int k))"
    by (rule powi_split) simp
  then have "real P * 2 powi (q - int k) = real m * 2 powi q" by (simp add: P_def)
  with fl show ?thesis by blast
qed


lemma fmul_exact:
  assumes "is_float f (Fin (s \<noteq> t) mt qt)"
    and "real mt * 2 powi qt = (real m * 2 powi q) * (real n * 2 powi k)"
  shows "fmul f (Fin s m q) (Fin t n k) = Fin (s \<noteq> t) mt qt"
proof -
  have "(2::real) powi (q + k) = 2 powi q * 2 powi k" by (rule power_int_add) simp
  then have "real mt * 2 powi qt = real (m * n) * 2 powi (q + k)"
    using assms(2) by simp
  with assms(1) have "rnd f (s \<noteq> t) (m * n) (q + k) = Fin (s \<noteq> t) mt qt"
    by (rule rnd_exact)
  then show ?thesis by simp
qed





lemma is_float_sign: "is_float f (Fin s m q) \<Longrightarrow> is_float f (Fin t m q)"
  by (simp add: is_float_def)

lemma valof_square: "(valof (Fin s m q))\<^sup>2 = (real m * 2 powi q) * (real m * 2 powi q)"
  by (simp add: power2_eq_square)

lemma square_exact:
  assumes "is_float f (Fin False m1 q1)" "(valof (Fin s m q))\<^sup>2 = real m1 * 2 powi q1"
  shows "fmul f (Fin s m q) (Fin s m q) = Fin False m1 q1"
proof -
  have "is_float f (Fin (s \<noteq> s) m1 q1)" using assms(1) by simp
  moreover have "real m1 * 2 powi q1 = (real m * 2 powi q) * (real m * 2 powi q)"
    using assms(2) by (simp only: valof_square)
  ultimately have "fmul f (Fin s m q) (Fin s m q) = Fin (s \<noteq> s) m1 q1"
    by (rule fmul_exact)
  then show ?thesis by simp
qed



lemma to_double_exact:
  assumes "is_float binary32 (Fin s m q)"
  obtains m' q' where "to_double (Fin s m q) = Fin s m' q'" "is_float binary64 (Fin s m' q')"
    "real m' * 2 powi q' = real m * 2 powi q"
proof -
  from float_is_double [OF assms, of s] obtain m' q'
    where d: "is_float binary64 (Fin s m' q')" "real m' * 2 powi q' = real m * 2 powi q"
    by blast
  then have "rnd binary64 s m q = Fin s m' q'" by (rule rnd_exact)
  with d show ?thesis by (intro that [of m' q']) simp_all
qed





subsection \<open>A fused multiply-add that cancels\<close>

text \<open>
  When the rounded product \<open>b*a\<close> is the exact product, \<open>fma(a, b, -(b*a))\<close> is \<open>+0\<close>.
\<close>

lemma rnd_sign: "rnd f s M E = Fin u l j \<Longrightarrow> u = s"
  by (auto simp: rnd_def rnd_at_def pack_def split: if_splits)

lemma scaled_value: "q0 \<le> q \<Longrightarrow> real_of_int (scaled q0 s m q) * 2 powi q0 = valof (Fin s m q)"
  by (simp add: scaled_def powi_split)

lemma valof_product:
  "valof (Fin (s \<noteq> t) (m * n) (q + k)) = valof (Fin s m q) * valof (Fin t n k)"
proof -
  have "(2::real) powi (q + k) = 2 powi q * 2 powi k" by (rule power_int_add) simp
  then show ?thesis by simp
qed

lemma ffma_cancel:
  assumes fin: "is_finite (fmul f b a)" and ex: "valof (fmul f b a) = valof a * valof b"
  shows "ffma f a b (fneg (fmul f b a)) = Fin False 0 (qmin f)"
proof -
  from fin obtain s m q t n k where ab: "a = Fin s m q" "b = Fin t n k"
    by (cases a; cases b) (simp_all add: is_finite_def split: if_splits)
  from fin obtain u l j where p: "fmul f b a = Fin u l j"
    by (cases "fmul f b a") (simp_all add: is_finite_def)
  with ab have "rnd f (t \<noteq> s) (n * m) (k + q) = Fin u l j" by simp
  then have u: "u = (s \<noteq> t)" using rnd_sign by blast
  define e where "e = min (q + k) j"
  have le: "e \<le> q + k" "e \<le> j" by (simp_all add: e_def)
  define c where "c = scaled e (s \<noteq> t) (m * n) (q + k) + scaled e (\<not> u) l j"
  have "real_of_int c * 2 powi e
      = real_of_int (scaled e (s \<noteq> t) (m * n) (q + k)) * 2 powi e
        + real_of_int (scaled e (\<not> u) l j) * 2 powi e"
    by (simp add: c_def algebra_simps)
  also have "\<dots> = valof (Fin (s \<noteq> t) (m * n) (q + k)) + valof (Fin (\<not> u) l j)"
    by (simp only: scaled_value [OF le(1)] scaled_value [OF le(2)])
  also have "valof (Fin (s \<noteq> t) (m * n) (q + k)) = valof a * valof b"
    unfolding ab by (rule valof_product)
  also have "valof (Fin (\<not> u) l j) = - valof (Fin u l j)" by simp
  also have "valof (Fin u l j) = valof a * valof b" using ex p by simp
  finally have "real_of_int c * 2 powi e = 0" by simp
  then have c0: "c = 0" by simp
  have "ffma f a b (fneg (fmul f b a)) = ffma f (Fin s m q) (Fin t n k) (Fin (\<not> u) l j)"
    by (simp only: ab p [unfolded ab] fneg.simps)
  also have "\<dots> = rnd_int f ((s \<noteq> t) \<and> \<not> u) c e"
    unfolding c_def e_def by simp
  also have "\<dots> = Fin False 0 (qmin f)" by (auto simp: c0 rnd_int_zero u)
  finally show ?thesis .
qed

subsection \<open>The error of rounding\<close>

text \<open>
  Rounding \<open>M * 2^E\<close> moves it by at most half a unit of the last place of the result. The
  same holds when \<open>M\<close> is odd, at least two bits longer than the precision, and stands
  for any real number less than 1 away from it: this is how the quotient and the square
  root are rounded, from their integer part and a bit that records a remainder.
\<close>

lemma round_shift_error:
  assumes d: "1 \<le> d" and t: "t = real M \<or> (odd M \<and> 2 \<le> d \<and> \<bar>t - real M\<bar> < 1)"
  shows "\<bar>real (round_shift M d) * 2 ^ d - t\<bar> \<le> 2 ^ (d - 1)"
proof -
  define m0 where "m0 = M div 2 ^ d"
  define r where "r = M mod 2 ^ d"
  define h :: nat where "h = 2 ^ (d - 1)"
  have pd: "(2::nat) ^ d = 2 * h" using d by (cases d) (simp_all add: h_def)
  have M: "M = m0 * (2 * h) + r"
    unfolding m0_def r_def pd [symmetric] by (rule div_mult_mod_eq [symmetric])
  have rlt: "r < 2 * h" by (simp add: r_def pd [symmetric])
  have rs: "round_shift M d = (if h < r \<or> (r = h \<and> odd m0) then m0 + 1 else m0)"
    using d by (simp add: round_shift_def round_up_def m0_def r_def h_def)
  have rM: "real M = real m0 * (2 * real h) + real r"
    by (subst M) simp
  have goal: "\<bar>real (round_shift M d) * (2 * real h) - t\<bar> \<le> real h"
  proof (cases "t = real M")
    case True
    show ?thesis
    proof (cases "h < r \<or> (r = h \<and> odd m0)")
      case up: True
      then have "h \<le> r" by auto
      then have "real h \<le> real r" by simp
      moreover have "real r < 2 * real h" using rlt by (simp only: of_nat_less_iff [symmetric, where 'a = real] of_nat_mult of_nat_numeral)
      ultimately show ?thesis using up True rM by (simp add: rs algebra_simps)
    next
      case dn: False
      then have "r \<le> h" by auto
      then have "real r \<le> real h" by simp
      then show ?thesis using dn True rM by (simp add: rs algebra_simps)
    qed
  next
    case False
    with t have st: "odd M" "2 \<le> d" "\<bar>t - real M\<bar> < 1" by auto
    have "even h" using st(2) by (cases d; simp add: h_def)
    have "odd r" using st(1) \<open>even h\<close> by (subst (asm) M) simp
    then have rne: "r \<noteq> h" "1 \<le> r" using \<open>even h\<close> by (auto elim: oddE)
    show ?thesis
    proof (cases "h < r")
      case up: True
      then have "real h + 1 \<le> real r" by linarith
      moreover have "real r + 1 \<le> 2 * real h" using rlt by linarith
      ultimately show ?thesis using up st(3) rM by (simp add: rs algebra_simps abs_if split: if_splits; linarith)
    next
      case dn: False
      with rne have "r < h" by simp
      then have "real r + 1 \<le> real h" by linarith
      moreover have "1 \<le> real r" using rne by simp
      moreover have "round_shift M d = m0" using dn rne by (simp add: rs)
      ultimately show ?thesis using st(3) rM by (simp add: algebra_simps abs_if split: if_splits; linarith)
    qed
  qed
  have e1: "(2::real) ^ d = 2 * real h"
    using pd by (metis of_nat_numeral of_nat_power of_nat_mult)
  have e2: "(2::real) ^ (d - 1) = real h" by (simp add: h_def)
  show ?thesis unfolding e1 e2 by (rule goal)
qed


lemma powi_Suc: "(2::real) powi (q + 1) = 2 * 2 powi q"
proof -
  have "(2::real) powi (q + 1) = 2 powi q * 2 powi 1" by (rule power_int_add) simp
  then show ?thesis by simp
qed

lemma pack_value:
  assumes "q < qmax f" "0 < prec f"
  shows "\<exists>m' q'. pack f s m q = Fin s m' q' \<and> real m' * 2 powi q' = real m * 2 powi q"
proof (cases "m = 2 ^ prec f")
  case True
  have "(2::nat) ^ prec f = 2 * 2 ^ (prec f - 1)" using assms(2) by (cases "prec f") simp_all
  then have "real m = 2 * 2 ^ (prec f - 1)" using True
    by (metis of_nat_numeral of_nat_power of_nat_mult)
  then have "real (2 ^ (prec f - 1)) * 2 powi (q + 1) = real m * 2 powi q"
    by (simp add: powi_Suc)
  moreover have "pack f s m q = Fin s (2 ^ (prec f - 1)) (q + 1)"
    using True assms(1) by (simp add: pack_def)
  ultimately show ?thesis by blast
next
  case False
  then have "pack f s m q = Fin s m q" using assms(1) by (simp add: pack_def)
  then show ?thesis by blast
qed

lemma bitlen_pow_le: "0 < M \<Longrightarrow> 2 ^ (bitlen M - 1) \<le> M"
proof -
  assume M0: "0 < M"
  then have "0 < bitlen M" using bitlen_upper [of M] by (cases "bitlen M = 0") auto
  then have "(2::nat) ^ bitlen M = 2 * 2 ^ (bitlen M - 1)" by (cases "bitlen M") simp_all
  with bitlen_lower [OF M0] show ?thesis by simp
qed

lemma rnd_error:
  assumes M0: "0 < M" and p0: "0 < prec f"
    and t: "t = real M \<or> (odd M \<and> prec f + 2 \<le> bitlen M \<and> \<bar>t - real M\<bar> < 1)"
    and noovf: "max (qmin f) (E + int (bitlen M) - int (prec f)) < qmax f"
  shows "\<exists>m q. rnd f s M E = Fin s m q \<and>
     \<bar>real m * 2 powi q - t * 2 powi E\<bar>
       \<le> 2 powi (max (qmin f) (E + int (bitlen M) - int (prec f)) - 1)"
proof -
  define q where "q = max (qmin f) (E + int (bitlen M) - int (prec f))"
  have r: "rnd f s M E
      = pack f s (if q \<le> E then M * 2 ^ nat (E - q) else round_shift M (nat (q - E))) q"
    using M0 by (simp add: rnd_def rnd_at_def q_def)
  have qlt: "q < qmax f" using noovf by (simp add: q_def)
  show ?thesis
  proof (cases "q \<le> E")
    case True
    have "E + int (bitlen M) - int (prec f) \<le> E" using True by (simp add: q_def)
    then have "bitlen M \<le> prec f" by simp
    with t have tM: "t = real M" by auto
    from pack_value [OF qlt p0, of s "M * 2 ^ nat (E - q)"] obtain m' q'
      where p: "pack f s (M * 2 ^ nat (E - q)) q = Fin s m' q'"
        "real m' * 2 powi q' = real (M * 2 ^ nat (E - q)) * 2 powi q" by blast
    have "real (M * 2 ^ nat (E - q)) * 2 powi q = real M * 2 powi E"
      by (simp add: powi_split [OF True])
    with p(2) tM have "\<bar>real m' * 2 powi q' - t * 2 powi E\<bar> = 0" by simp
    then have "\<bar>real m' * 2 powi q' - t * 2 powi E\<bar> \<le> 2 powi (q - 1)" by simp
    with p(1) r True show ?thesis unfolding q_def [symmetric] by auto
  next
    case False
    define d where "d = nat (q - E)"
    have d1: "1 \<le> d" using False by (simp add: d_def)
    have dq: "q = E + int d" using False by (simp add: d_def)
    have t': "t = real M \<or> (odd M \<and> 2 \<le> d \<and> \<bar>t - real M\<bar> < 1)"
    proof (cases "t = real M")
      case False
      with t have st: "odd M" "prec f + 2 \<le> bitlen M" "\<bar>t - real M\<bar> < 1" by auto
      have "E + int (bitlen M) - int (prec f) \<le> q" by (simp add: q_def)
      with st(2) dq have "2 \<le> d" by linarith
      with st show ?thesis by simp
    qed simp
    have e: "\<bar>real (round_shift M d) * 2 ^ d - t\<bar> \<le> 2 ^ (d - 1)"
      using d1 t' by (rule round_shift_error)
    from pack_value [OF qlt p0, of s "round_shift M d"] obtain m' q'
      where p: "pack f s (round_shift M d) q = Fin s m' q'"
        "real m' * 2 powi q' = real (round_shift M d) * 2 powi q" by blast
    have pq: "(2::real) powi q = 2 powi E * 2 ^ d"
      unfolding d_def using False by (intro powi_split) simp
    have "nat (q - 1 - E) = d - 1" using d1 by (simp add: d_def)
    moreover have "E \<le> q - 1" using False by simp
    ultimately have pq1: "(2::real) powi (q - 1) = 2 powi E * 2 ^ (d - 1)"
      using powi_split [of E "q - 1"] by simp
    have "real m' * 2 powi q' - t * 2 powi E
        = 2 powi E * (real (round_shift M d) * 2 ^ d - t)"
      using p(2) pq by (simp add: algebra_simps)
    then have "\<bar>real m' * 2 powi q' - t * 2 powi E\<bar>
        = 2 powi E * \<bar>real (round_shift M d) * 2 ^ d - t\<bar>"
      by (simp add: abs_mult)
    also have "\<dots> \<le> 2 powi E * 2 ^ (d - 1)"
      using e by (intro mult_left_mono) simp_all
    finally have "\<bar>real m' * 2 powi q' - t * 2 powi E\<bar> \<le> 2 powi (q - 1)"
      by (simp only: pq1)
    with p(1) r False show ?thesis unfolding q_def [symmetric] d_def [symmetric] by auto
  qed
qed


lemma powi_less_imp: "(2::real) powi a < 2 powi b \<Longrightarrow> a < b"
proof (rule ccontr)
  assume l: "(2::real) powi a < 2 powi b" and "\<not> a < b"
  then have "b \<le> a" by simp
  then have "(2::real) powi b \<le> 2 powi a" by (rule power_int_increasing) simp
  with l show False by simp
qed

lemma powi_nat: "(2::real) powi (E + int n) = 2 powi E * 2 ^ n"
  using powi_split [of E "E + int n"] by simp

lemma real_pow2_le: "2 ^ k \<le> (n::nat) \<Longrightarrow> (2::real) ^ k \<le> real n"
  using of_nat_le_iff [of "2 ^ k" n, where 'a = real] by simp

lemma real_less_pow2: "(n::nat) < 2 ^ k \<Longrightarrow> real n < 2 ^ k"
  using of_nat_less_iff [of n "2 ^ k", where 'a = real] by simp

lemma real_le_pow2: "(n::nat) \<le> 2 ^ k \<Longrightarrow> real n \<le> 2 ^ k"
  using of_nat_le_iff [of n "2 ^ k", where 'a = real] by simp

lemma sticky_range:
  assumes M0: "0 < M"
    and t: "t = real M \<or> (odd M \<and> 2 \<le> bitlen M \<and> \<bar>t - real M\<bar> < 1)"
  shows "2 ^ (bitlen M - 1) \<le> t \<and> t < 2 ^ bitlen M"
proof -
  have lo: "2 ^ (bitlen M - 1) \<le> M" using M0 by (rule bitlen_pow_le)
  have hi: "M < 2 ^ bitlen M" by (rule bitlen_upper)
  have rlo: "(2::real) ^ (bitlen M - 1) \<le> real M"
    using lo by (rule real_pow2_le)
  have rhi: "real M < 2 ^ bitlen M"
    using hi by (rule real_less_pow2)
  show ?thesis
  proof (cases "t = real M")
    case True
    with rlo rhi show ?thesis by simp
  next
    case False
    with t have st: "odd M" "2 \<le> bitlen M" "\<bar>t - real M\<bar> < 1" by auto
    have e1: "even ((2::nat) ^ (bitlen M - 1))" using st(2) by simp
    have "2 ^ (bitlen M - 1) \<noteq> M"
    proof
      assume h: "2 ^ (bitlen M - 1) = M"
      from e1 show False unfolding h using st(1) by simp
    qed
    with lo have "2 ^ (bitlen M - 1) \<le> M - 1" "1 \<le> M" by simp_all
    then have a: "(2::real) ^ (bitlen M - 1) + 1 \<le> real M"
      using real_pow2_le [of "bitlen M - 1" "M - 1"] by (simp add: of_nat_diff)
    from hi have "M + 1 \<le> 2 ^ bitlen M" by simp
    then have b: "real M + 1 \<le> 2 ^ bitlen M"
      using real_le_pow2 [of "M + 1" "bitlen M"] by simp
    from a b st(3) show ?thesis by (simp add: abs_if split: if_splits)
  qed
qed

lemma rnd_rel_error:
  assumes M0: "0 < M" and p0: "0 < prec f"
    and t: "t = real M \<or> (odd M \<and> prec f + 2 \<le> bitlen M \<and> \<bar>t - real M\<bar> < 1)"
    and v: "v = t * 2 powi E"
    and lo: "2 powi (qmin f + int (prec f)) \<le> v"
    and hi: "v < 2 powi (qmax f + int (prec f) - 1)"
  shows "\<exists>m q. rnd f s M E = Fin s m q \<and> \<bar>real m * 2 powi q - v\<bar> \<le> 2 powi (- int (prec f)) * v"
proof -
  have t': "t = real M \<or> (odd M \<and> 2 \<le> bitlen M \<and> \<bar>t - real M\<bar> < 1)"
    using t by auto
  from sticky_range [OF M0 t'] have tr: "2 ^ (bitlen M - 1) \<le> t" "t < 2 ^ bitlen M" by simp_all
  have b0: "0 < bitlen M" using bitlen_upper [of M] M0 by (cases "bitlen M = 0") auto
  have vlo: "2 powi (E + int (bitlen M) - 1) \<le> v"
  proof -
    have "(2::real) powi (E + int (bitlen M - 1)) = 2 powi E * 2 ^ (bitlen M - 1)"
      by (rule powi_nat)
    also have "\<dots> \<le> 2 powi E * t" using tr(1) by (intro mult_left_mono) simp_all
    finally have "2 powi (E + int (bitlen M - 1)) \<le> v" by (simp add: v mult.commute)
    moreover have "E + int (bitlen M) - 1 = E + int (bitlen M - 1)" using b0 by linarith
    ultimately show ?thesis by (simp only:)
  qed
  have vhi: "v < 2 powi (E + int (bitlen M))"
  proof -
    have "2 powi E * t < 2 powi E * 2 ^ bitlen M" using tr(2) by (intro mult_strict_left_mono) simp_all
    then show ?thesis by (simp add: v powi_nat mult.commute)
  qed
  have "2 powi (qmin f + int (prec f)) < (2::real) powi (E + int (bitlen M))"
    using lo vhi by simp
  then have n: "qmin f + int (prec f) < E + int (bitlen M)" by (rule powi_less_imp)
  have "2 powi (E + int (bitlen M) - 1) < (2::real) powi (qmax f + int (prec f) - 1)"
    using vlo hi by simp
  then have o: "E + int (bitlen M) - 1 < qmax f + int (prec f) - 1" by (rule powi_less_imp)
  have mx: "max (qmin f) (E + int (bitlen M) - int (prec f)) = E + int (bitlen M) - int (prec f)"
    using n by simp
  have "max (qmin f) (E + int (bitlen M) - int (prec f)) < qmax f" using mx o by simp
  from rnd_error [OF M0 p0 t this, of s] obtain m q
    where r: "rnd f s M E = Fin s m q"
      "\<bar>real m * 2 powi q - t * 2 powi E\<bar> \<le> 2 powi (E + int (bitlen M) - int (prec f) - 1)"
    unfolding mx by blast
  have idx: "E + int (bitlen M) - int (prec f) - 1 = - int (prec f) + (E + int (bitlen M) - 1)"
    by simp
  have "(2::real) powi (E + int (bitlen M) - int (prec f) - 1)
      = 2 powi (- int (prec f)) * 2 powi (E + int (bitlen M) - 1)"
    unfolding idx by (rule power_int_add) simp
  also have "\<dots> \<le> 2 powi (- int (prec f)) * v"
    using vlo by (intro mult_left_mono) simp_all
  finally show ?thesis using r v by auto
qed


lemma rnd_abs_error:
  assumes M0: "0 < M" and p0: "0 < prec f" and qq: "qmin f < qmax f"
    and hi: "real M * 2 powi E < 2 powi (qmax f + int (prec f) - 1)"
  shows "\<exists>m q. rnd f s M E = Fin s m q \<and>
    \<bar>real m * 2 powi q - real M * 2 powi E\<bar>
      \<le> 2 powi (- int (prec f)) * (real M * 2 powi E) + 2 powi (qmin f - 1)"
proof -
  define v where "v = real M * 2 powi E"
  have t: "real M = real M \<or> (odd M \<and> prec f + 2 \<le> bitlen M \<and> \<bar>real M - real M\<bar> < 1)"
    by simp
  have t': "real M = real M \<or> (odd M \<and> 2 \<le> bitlen M \<and> \<bar>real M - real M\<bar> < 1)"
    by simp
  from sticky_range [OF M0 t'] have tr: "2 ^ (bitlen M - 1) \<le> real M" by simp
  have b0: "0 < bitlen M" using bitlen_upper [of M] M0 by (cases "bitlen M = 0") auto
  have vlo: "2 powi (E + int (bitlen M) - 1) \<le> v"
  proof -
    have "(2::real) powi (E + int (bitlen M - 1)) = 2 powi E * 2 ^ (bitlen M - 1)"
      by (rule powi_nat)
    also have "\<dots> \<le> 2 powi E * real M" using tr by (intro mult_left_mono) simp_all
    finally have "2 powi (E + int (bitlen M - 1)) \<le> v" by (simp add: v_def mult.commute)
    moreover have "E + int (bitlen M) - 1 = E + int (bitlen M - 1)" using b0 by linarith
    ultimately show ?thesis by (simp only:)
  qed
  have "2 powi (E + int (bitlen M) - 1) < (2::real) powi (qmax f + int (prec f) - 1)"
    using vlo hi by (simp add: v_def)
  then have o: "E + int (bitlen M) - 1 < qmax f + int (prec f) - 1" by (rule powi_less_imp)
  define qs where "qs = max (qmin f) (E + int (bitlen M) - int (prec f))"
  have "qs < qmax f" using o qq by (simp add: qs_def)
  from rnd_error [OF M0 p0 t this [unfolded qs_def], of s] obtain m q
    where r: "rnd f s M E = Fin s m q"
      "\<bar>real m * 2 powi q - real M * 2 powi E\<bar> \<le> 2 powi (qs - 1)"
    unfolding qs_def by blast
  have idx: "E + int (bitlen M) - int (prec f) - 1 = - int (prec f) + (E + int (bitlen M) - 1)"
    by simp
  have "(2::real) powi (E + int (bitlen M) - int (prec f) - 1)
      = 2 powi (- int (prec f)) * 2 powi (E + int (bitlen M) - 1)"
    unfolding idx by (rule power_int_add) simp
  also have "\<dots> \<le> 2 powi (- int (prec f)) * v"
    using vlo by (intro mult_left_mono) simp_all
  finally have a: "(2::real) powi (E + int (bitlen M) - int (prec f) - 1) \<le> 2 powi (- int (prec f)) * v" .
  have "(2::real) powi (qs - 1) \<le> 2 powi (- int (prec f)) * v + 2 powi (qmin f - 1)"
  proof (cases "qmin f \<le> E + int (bitlen M) - int (prec f)")
    case True
    then have eq: "qs = E + int (bitlen M) - int (prec f)" by (simp add: qs_def)
    have "(2::real) powi (qs - 1) \<le> 2 powi (- int (prec f)) * v" unfolding eq by (rule a)
    moreover have "0 \<le> (2::real) powi (qmin f - 1)" by simp
    ultimately show ?thesis by linarith
  next
    case False
    then have eq: "qs = qmin f" by (simp add: qs_def)
    have "0 \<le> 2 powi (- int (prec f)) * v" by (simp add: v_def)
    then show ?thesis unfolding eq by linarith
  qed
  with r show ?thesis unfolding v_def by (meson order_trans)
qed

lemma pow2_le_bitlen: "2 ^ k \<le> n \<Longrightarrow> k < bitlen n"
proof -
  assume "2 ^ k \<le> n"
  then have "(2::nat) ^ k < 2 ^ bitlen n" using bitlen_upper [of n] by (rule le_less_trans)
  then show ?thesis using power_less_imp_less_exp [of 2 k "bitlen n"] by simp
qed

lemma fdiv_rel_error:
  assumes m0: "0 < m" and n0: "0 < n" and p0: "0 < prec f"
    and v: "v = (real m * 2 powi q) / (real n * 2 powi k)"
    and lo: "2 powi (qmin f + int (prec f)) \<le> v"
    and hi: "v < 2 powi (qmax f + int (prec f) - 1)"
  shows "\<exists>m' q'. fdiv f (Fin s m q) (Fin t n k) = Fin (s \<noteq> t) m' q'
     \<and> \<bar>real m' * 2 powi q' - v\<bar> \<le> 2 powi (- int (prec f)) * v"
proof -
  define sh where "sh = prec f + 2 + bitlen n"
  define N where "N = m * 2 ^ sh"
  define Q where "Q = N div n"
  define R where "R = N mod n"
  define M where "M = with_sticky Q (R = 0)"
  define E where "E = q - k - int sh - 1"
  define t' where "t' = 2 * (real N / real n)"
  have N: "N = Q * n + R" by (simp add: Q_def R_def)
  have Rn: "R < n" using n0 by (simp add: R_def)
  have rN: "real N = real Q * real n + real R" by (subst N) simp
  have frac: "real N / real n = real Q + real R / real n"
    using n0 by (simp add: rN field_simps)
  have Qlo: "2 ^ (prec f + 2) \<le> Q"
  proof -
    have "n < 2 ^ bitlen n" by (rule bitlen_upper)
    then have "2 ^ (prec f + 2) * n \<le> 2 ^ (prec f + 2) * 2 ^ bitlen n" by simp
    also have "\<dots> = 2 ^ sh" by (simp add: sh_def power_add)
    also have "\<dots> \<le> N" using m0 by (simp add: N_def)
    finally show ?thesis using n0 by (simp add: Q_def less_eq_div_iff_mult_less_eq)
  qed
  have M0: "0 < M" using Qlo by (cases "Q = 0") (auto simp: M_def with_sticky_def)
  have tc: "t' = real M \<or> (odd M \<and> prec f + 2 \<le> bitlen M \<and> \<bar>t' - real M\<bar> < 1)"
  proof (cases "R = 0")
    case True
    then show ?thesis using frac by (simp add: M_def with_sticky_def t'_def)
  next
    case False
    then have Mv: "M = 2 * Q + 1" by (simp add: M_def with_sticky_def)
    have "2 ^ (prec f + 2) \<le> M" using Qlo Mv by simp
    then have "prec f + 2 < bitlen M" by (rule pow2_le_bitlen)
    moreover have "0 < real R / real n" "real R / real n < 1"
      using False Rn n0 by simp_all
    then have "\<bar>t' - real M\<bar> < 1" using frac by (simp add: t'_def Mv abs_if)
    ultimately show ?thesis using Mv by simp
  qed
  have "(2::real) powi (q - k) = 2 powi E * 2 ^ nat (q - k - E)"
    by (rule powi_split) (simp add: E_def)
  moreover have "nat (q - k - E) = sh + 1" by (simp add: E_def)
  ultimately have pk: "(2::real) powi (q - k) = 2 powi E * (2 ^ sh * 2)" by simp
  have "(2::real) powi (q - k) = 2 powi q / 2 powi k"
    by (simp add: power_int_diff)
  then have "v = (real m / real n) * 2 powi (q - k)" using v by simp
  also have "\<dots> = t' * 2 powi E"
    by (simp add: t'_def N_def pk)
  finally have vt: "v = t' * 2 powi E" .
  from rnd_rel_error [OF M0 p0 tc vt lo hi, of "s \<noteq> t"] obtain m' q'
    where r: "rnd f (s \<noteq> t) M E = Fin (s \<noteq> t) m' q'"
      "\<bar>real m' * 2 powi q' - v\<bar> \<le> 2 powi (- int (prec f)) * v" by blast
  have "fdiv f (Fin s m q) (Fin t n k) = rnd f (s \<noteq> t) M E"
    using n0 by (simp add: rnd_quot_def rnd_quot_sh_def M_def Q_def R_def N_def E_def sh_def)
  with r show ?thesis by auto
qed


lemma fsqrt_rel_error:
  assumes m0: "0 < m" and p0: "0 < prec f"
    and v: "v = sqrt (real m * 2 powi q)"
    and lo: "2 powi (qmin f + int (prec f)) \<le> v"
    and hi: "v < 2 powi (qmax f + int (prec f) - 1)"
  shows "\<exists>m' q'. fsqrt f (Fin False m q) = Fin False m' q'
     \<and> \<bar>real m' * 2 powi q' - v\<bar> \<le> 2 powi (- int (prec f)) * v"
proof -
  define sh where "sh = 2 * (prec f + 2) + nat (q mod 2)"
  define N where "N = m * 2 ^ sh"
  define E where "E = (q - int sh) div 2"
  define r where "r = isqrt N"
  define M where "M = with_sticky r (r * r = N)"
  define t' where "t' = 2 * sqrt (real N)"
  have "q - int sh = 2 * (q div 2) - 2 * int (prec f + 2)"
    by (simp add: sh_def) presburger
  then have E2: "2 * E = q - int sh" by (simp add: E_def)
  have rb: "r * r \<le> N" "N < (r + 1) * (r + 1)"
    using isqrt_bounds [of N] by (simp_all add: r_def)
  have Nlo: "2 ^ (prec f + 2) * 2 ^ (prec f + 2) \<le> N"
  proof -
    have "(2::nat) ^ (prec f + 2) * 2 ^ (prec f + 2) = 2 ^ (2 * (prec f + 2))"
      unfolding mult_2 by (rule power_add [symmetric])
    also have "\<dots> \<le> 2 ^ sh" by (rule power_increasing) (simp_all add: sh_def)
    also have "\<dots> \<le> N" using m0 by (simp add: N_def)
    finally show ?thesis .
  qed
  have rlo: "2 ^ (prec f + 2) \<le> r"
  proof (rule ccontr)
    assume "\<not> 2 ^ (prec f + 2) \<le> r"
    then have "r + 1 \<le> 2 ^ (prec f + 2)" by simp
    then have "(r + 1) * (r + 1) \<le> 2 ^ (prec f + 2) * 2 ^ (prec f + 2)"
      by (intro mult_le_mono)
    with Nlo rb(2) show False by simp
  qed
  have M0: "0 < M" using rlo by (cases "r = 0") (auto simp: M_def with_sticky_def)
  have s1: "real r \<le> sqrt (real N)"
  proof -
    have "real r * real r \<le> real N"
      using rb(1) of_nat_le_iff [of "r * r" N, where 'a = real] by simp
    then have "sqrt (real r * real r) \<le> sqrt (real N)" by (simp only: real_sqrt_le_iff)
    then show ?thesis by simp
  qed
  have s2: "sqrt (real N) < real r + 1"
  proof -
    have "real N < (real r + 1) * (real r + 1)"
      using rb(2) of_nat_less_iff [of N "(r + 1) * (r + 1)", where 'a = real]
      by (simp add: algebra_simps)
    then have "sqrt (real N) < sqrt ((real r + 1) * (real r + 1))"
      by (simp only: real_sqrt_less_iff)
    then show ?thesis by simp
  qed
  have tc: "t' = real M \<or> (odd M \<and> prec f + 2 \<le> bitlen M \<and> \<bar>t' - real M\<bar> < 1)"
  proof (cases "r * r = N")
    case True
    then have "real N = real (r * r)" by simp
    then have "real N = real r * real r" by simp
    then have "sqrt (real N) = real r" by simp
    with True show ?thesis by (simp add: M_def with_sticky_def t'_def)
  next
    case False
    then have Mv: "M = 2 * r + 1" by (simp add: M_def with_sticky_def)
    have "2 ^ (prec f + 2) \<le> M" using rlo Mv by simp
    then have b: "prec f + 2 < bitlen M" by (rule pow2_le_bitlen)
    have "sqrt (real N) \<noteq> real r"
    proof
      assume e: "sqrt (real N) = real r"
      have "(sqrt (real N))\<^sup>2 = real N" by simp
      then have "real (r * r) = real N" unfolding e by (simp add: power2_eq_square)
      then have "r * r = N" by (simp only: of_nat_eq_iff)
      with False show False by simp
    qed
    with s1 have "real r < sqrt (real N)" by simp
    with s2 have "\<bar>t' - real M\<bar> < 1" by (simp add: t'_def Mv abs_if)
    with b Mv show ?thesis by simp
  qed
  have sqE: "sqrt (2 powi (2 * E)) = (2::real) powi E"
  proof -
    have "(2::real) powi (2 * E) = 2 powi E * 2 powi E"
      unfolding mult_2 by (rule power_int_add) simp
    then show ?thesis by (simp add: real_sqrt_mult)
  qed
  have "(2::real) powi q = 2 powi (q - int sh) * 2 ^ nat (q - (q - int sh))"
    by (rule powi_split) simp
  then have "real m * 2 powi q = real N * 2 powi (2 * E)"
    by (simp add: N_def E2)
  then have "v = sqrt (real N) * 2 powi E"
    by (simp add: v real_sqrt_mult sqE)
  moreover have "(2::real) powi E = 2 powi (E - 1) * 2 ^ nat (E - (E - 1))"
    by (rule powi_split) simp
  ultimately have vt: "v = t' * 2 powi (E - 1)" by (simp add: t'_def)
  from rnd_rel_error [OF M0 p0 tc vt lo hi, of False] obtain m' q'
    where res: "rnd f False M (E - 1) = Fin False m' q'"
      "\<bar>real m' * 2 powi q' - v\<bar> \<le> 2 powi (- int (prec f)) * v" by blast
  have "fsqrt f (Fin False m q) = rnd f False M (E - 1)"
    using m0 by (simp add: rnd_sqrt_sh_def rnd_root_def M_def r_def N_def E_def sh_def)
  with res show ?thesis by auto
qed

subsection \<open>How errors propagate through a quotient by a length\<close>

text \<open>
  Real arithmetic only. A sum \<open>S\<close>, its square root \<open>L\<close> and a quotient \<open>D\<close> by \<open>L\<close>, each with
  a relative error of at most \<open>u\<close>, give a quotient at most \<open>4u\<close> away from the exact one.
\<close>

lemma length_analysis:
  fixes s S L u :: real
  assumes u: "0 \<le> u" "u \<le> 1 / 16" and s: "0 < s"
    and S: "\<bar>S - s\<bar> \<le> u * s"
    and L: "\<bar>L - sqrt S\<bar> \<le> u * sqrt S"
  shows "(1 - u) * s \<le> S" "S \<le> (1 + u) * s"
    "(1 - u) * ((1 - u) * sqrt s) \<le> L" "L \<le> (1 + u) * ((1 + u) * sqrt s)"
proof -
  define l where "l = sqrt s"
  have l0: "0 < l" using s(1) by (simp add: l_def)
  have ll: "l * l = s" using s(1) by (simp add: l_def)
  have um: "0 \<le> 1 - u" "1 - u \<le> 1" "0 < 1 - u" using u by simp_all
  show Slo: "(1 - u) * s \<le> S" and Shi: "S \<le> (1 + u) * s"
    using S by (simp_all add: abs_le_iff algebra_simps)
  have S0: "0 \<le> S" using Slo um(1) s(1) by (meson mult_nonneg_nonneg less_imp_le order_trans)
  have q1: "(1 - u) * l \<le> sqrt S"
  proof (rule real_le_rsqrt)
    have "((1 - u) * l)\<^sup>2 = (1 - u) * ((1 - u) * s)"
      by (simp add: power2_eq_square ll [symmetric] algebra_simps)
    also have "\<dots> \<le> 1 * ((1 - u) * s)"
      using um s(1) by (intro mult_right_mono) simp_all
    also have "\<dots> \<le> S" using Slo by simp
    finally show "((1 - u) * l)\<^sup>2 \<le> S" .
  qed
  have q2: "sqrt S \<le> (1 + u) * l"
  proof (rule real_le_lsqrt)
    show "0 \<le> (1 + u) * l" using u l0 by simp
    have "S \<le> 1 * ((1 + u) * s)" using Shi by simp
    also have "\<dots> \<le> (1 + u) * ((1 + u) * s)"
      using u s(1) by (intro mult_right_mono) simp_all
    also have "\<dots> = ((1 + u) * l)\<^sup>2"
      by (simp add: power2_eq_square ll [symmetric] algebra_simps)
    finally show "S \<le> ((1 + u) * l)\<^sup>2" .
  qed
  have Llo': "(1 - u) * sqrt S \<le> L" and Lhi': "L \<le> (1 + u) * sqrt S"
    using L by (simp_all add: abs_le_iff algebra_simps)
  show "(1 - u) * ((1 - u) * sqrt s) \<le> L"
  proof -
    have "(1 - u) * ((1 - u) * l) \<le> (1 - u) * sqrt S"
      using q1 um(1) by (rule mult_left_mono)
    with Llo' show ?thesis by (simp add: l_def)
  qed
  show "L \<le> (1 + u) * ((1 + u) * sqrt s)"
  proof -
    have "(1 + u) * sqrt S \<le> (1 + u) * ((1 + u) * l)"
      using q2 u by (intro mult_left_mono) simp_all
    with Lhi' show ?thesis by (simp add: l_def)
  qed
qed

lemma quotient_analysis:
  fixes a s L D u :: real
  assumes u: "0 \<le> u" "u \<le> 1 / 16"
    and a: "0 \<le> a" and s: "0 < s" "a * a \<le> s"
    and Llo: "(1 - u) * ((1 - u) * sqrt s) \<le> L" and Lhi: "L \<le> (1 + u) * ((1 + u) * sqrt s)"
    and D: "\<bar>D - a / L\<bar> \<le> u * (a / L)"
  shows "\<bar>D - a / sqrt s\<bar> \<le> 4 * u" "0 \<le> D" "D \<le> 5 / 4"
proof -
  define l where "l = sqrt s"
  define c where "c = a / l"
  have l0: "0 < l" using s(1) by (simp add: l_def)
  have um: "0 \<le> 1 - u" "1 - u \<le> 1" "0 < 1 - u" using u by simp_all
  have uu: "0 \<le> u * u" by simp
  have L0: "0 < L"
  proof -
    have "0 < (1 - u) * ((1 - u) * l)" using um(3) l0 by simp
    with Llo show ?thesis by (simp add: l_def)
  qed
  have c0: "0 \<le> c" using a l0 by (simp add: c_def)
  have c1: "c \<le> 1"
  proof -
    have "a \<le> sqrt s" using s(2) by (intro real_le_rsqrt) (simp add: power2_eq_square)
    then show ?thesis using l0 by (simp add: c_def l_def)
  qed
  have acl: "a = c * l" using l0 by (simp add: c_def)
  define g where "g = a / L"
  have aL0: "0 \<le> g" using a L0 by (simp add: g_def)
  have gL: "g * L = a" using L0 by (simp add: g_def)
  have "\<bar>D - g\<bar> \<le> u * g" using D by (simp only: g_def)
  then have Dlo': "(1 - u) * g \<le> D" and Dhi': "D \<le> (1 + u) * g"
    by (simp_all add: abs_le_iff algebra_simps)
  show D0: "0 \<le> D" using Dlo' um(1) aL0 by (meson mult_nonneg_nonneg order_trans)
  have p1: "1 + u \<le> (1 + 4 * u) * ((1 - u) * (1 - u))"
  proof -
    have "0 \<le> 1 - 7 * u + 4 * (u * u)" using u uu by linarith
    then have "0 \<le> u * (1 - 7 * u + 4 * (u * u))" using u(1) by (rule mult_nonneg_nonneg [rotated])
    then show ?thesis by (simp add: algebra_simps)
  qed
  have p2: "(1 - 4 * u) * ((1 + u) * (1 + u)) \<le> 1 - u"
  proof -
    have "0 \<le> 1 + 7 * u + 4 * (u * u)" using u uu by linarith
    then have "0 \<le> u * (1 + 7 * u + 4 * (u * u))" using u(1) by (rule mult_nonneg_nonneg [rotated])
    then show ?thesis by (simp add: algebra_simps)
  qed
  have Dhi: "D \<le> (1 + 4 * u) * c"
  proof -
    have "D * L \<le> (1 + u) * a"
    proof -
      have "D * L \<le> ((1 + u) * g) * L" using Dhi' L0 by (intro mult_right_mono) simp_all
      then show ?thesis using gL by (simp add: mult.assoc)
    qed
    moreover have "D * ((1 - u) * ((1 - u) * l)) \<le> D * L"
      using Llo D0 unfolding l_def by (rule mult_left_mono)
    ultimately have "D * ((1 - u) * ((1 - u) * l)) \<le> (1 + u) * (c * l)"
      unfolding acl by linarith
    also have "\<dots> \<le> ((1 + 4 * u) * ((1 - u) * (1 - u))) * (c * l)"
      using p1 c0 l0 by (intro mult_right_mono) simp_all
    finally have "(D * ((1 - u) * (1 - u))) * l \<le> (((1 + 4 * u) * c) * ((1 - u) * (1 - u))) * l"
      by (simp add: algebra_simps)
    then have "D * ((1 - u) * (1 - u)) \<le> ((1 + 4 * u) * c) * ((1 - u) * (1 - u))"
      using l0 by (simp only: mult_le_cancel_right_pos)
    moreover have "0 < (1 - u) * (1 - u)" using um(3) by simp
    ultimately show ?thesis by (simp only: mult_le_cancel_right_pos)
  qed
  have Dlo: "(1 - 4 * u) * c \<le> D"
  proof -
    have "(1 - u) * a \<le> D * L"
    proof -
      have "((1 - u) * g) * L \<le> D * L" using Dlo' L0 by (intro mult_right_mono) simp_all
      then show ?thesis using gL by (simp add: mult.assoc)
    qed
    moreover have "D * L \<le> D * ((1 + u) * ((1 + u) * l))"
      using Lhi D0 unfolding l_def by (rule mult_left_mono)
    ultimately have "(1 - u) * (c * l) \<le> D * ((1 + u) * ((1 + u) * l))"
      unfolding acl by linarith
    moreover have "((1 - 4 * u) * ((1 + u) * (1 + u))) * (c * l) \<le> (1 - u) * (c * l)"
      using p2 c0 l0 by (intro mult_right_mono) simp_all
    ultimately have "(((1 - 4 * u) * c) * ((1 + u) * (1 + u))) * l \<le> (D * ((1 + u) * (1 + u))) * l"
      by (simp add: algebra_simps)
    then have "((1 - 4 * u) * c) * ((1 + u) * (1 + u)) \<le> D * ((1 + u) * (1 + u))"
      using l0 by (simp only: mult_le_cancel_right_pos)
    moreover have "0 < (1 + u) * (1 + u)" using u by (simp add: add_pos_nonneg)
    ultimately show ?thesis by (simp only: mult_le_cancel_right_pos)
  qed
  have uc: "u * c \<le> u" using c1 u(1) by (simp add: mult_left_le)
  have dc: "\<bar>D - c\<bar> \<le> 4 * u" using Dhi Dlo uc by (simp add: abs_le_iff algebra_simps)
  then show "\<bar>D - a / sqrt s\<bar> \<le> 4 * u" by (simp add: c_def l_def)
  have "D \<le> 1 + 4 * u" using dc c1 by (simp add: abs_le_iff)
  then show "D \<le> 5 / 4" using u by simp
qed

subsection \<open>The quotients of \<open>normalized\<close>\<close>

lemma float_value_range:
  assumes "is_float binary32 (Fin s m q)" "0 < m"
  shows "2 powi (- 149) \<le> real m * 2 powi q" "real m * 2 powi q < 2 powi 128"
proof -
  from assms have r: "m < 2 ^ 24" "- 149 \<le> q" "q \<le> 104"
    by (simp_all add: is_float_def binary32_def)
  have "(2::real) powi (- 149) \<le> 2 powi q" using r(2) by (intro power_int_increasing) simp_all
  also have "\<dots> = 1 * 2 powi q" by simp
  also have "\<dots> \<le> real m * 2 powi q" using assms(2) by (intro mult_right_mono) simp_all
  finally show "2 powi (- 149) \<le> real m * 2 powi q" .
  have "real m < 2 ^ 24" using r(1) by (rule real_less_pow2)
  then have "real m * 2 powi q < 2 ^ 24 * 2 powi q" by (intro mult_strict_right_mono) simp_all
  also have "\<dots> = 2 powi (q + 24)" using powi_nat [of q 24] by simp
  also have "\<dots> \<le> 2 powi 128" using r(3) by (intro power_int_increasing) simp_all
  finally show "real m * 2 powi q < 2 powi 128" .
qed

lemma normalise_double:
  assumes M0: "0 < M" and M: "M < 2 ^ 53" and E: "- 1022 \<le> E" "E \<le> 971"
  shows "\<exists>m q. is_float binary64 (Fin t m q) \<and> real m * 2 powi q = real M * 2 powi E"
proof -
  have bl: "bitlen M \<le> 53" using M by (rule bitlen_le)
  define k where "k = 53 - bitlen M"
  define P where "P = M * 2 ^ k"
  have b0: "0 < bitlen M" using bitlen_upper [of M] M0 by (cases "bitlen M = 0") auto
  have kb: "bitlen M + k = 53" "k \<le> 52" using bl b0 by (simp_all add: k_def)
  have "bitlen P = 53" using M0 kb by (simp add: bitlen_shift P_def)
  then have "P < 2 ^ 53" "2 ^ 53 \<le> 2 * P"
    using bitlen_upper [of P] bitlen_lower [of P] M0 by (simp_all add: P_def)
  then have up: "P < 9007199254740992" and lo: "4503599627370496 \<le> P" by simp_all
  have "- 1074 \<le> E - int k" "E - int k \<le> 971" using E kb by linarith+
  then have fl: "is_float binary64 (Fin t P (E - int k))"
    using up lo by (simp add: is_float_def binary64_def)
  have "(2::real) powi E = 2 powi (E - int k) * 2 ^ nat (E - (E - int k))"
    by (rule powi_split) simp
  then have "real P * 2 powi (E - int k) = real M * 2 powi E" by (simp add: P_def)
  with fl show ?thesis by blast
qed

lemma pow_2_float:
  assumes x: "is_float binary32 (Fin s m q)"
  shows "\<exists>m1 q1. pow_2 (Fin s m q) = Fin False m1 q1
     \<and> real m1 * 2 powi q1 = (real m * 2 powi q) * (real m * 2 powi q)"
proof -
  from x obtain m' q' where d: "to_double (Fin s m q) = Fin s m' q'"
    "real m' * 2 powi q' = real m * 2 powi q" by (rule to_double_exact)
  have "\<exists>m1 q1. is_float binary64 (Fin False m1 q1)
      \<and> real m1 * 2 powi q1 = (real m * 2 powi q) * (real m * 2 powi q)"
  proof (cases "m = 0")
    case True
    have "is_float binary64 (Fin False 0 (- 1074))" by (simp add: is_float_def binary64_def)
    with True show ?thesis by (intro exI [of _ 0] exI [of _ "- 1074"]) simp
  next
    case False
    from x have r: "m < 2 ^ 24" "- 149 \<le> q" "q \<le> 104"
      by (simp_all add: is_float_def binary32_def)
    have "m * m < 2 ^ 24 * 2 ^ 24" using r(1) by (intro mult_strict_mono') simp_all
    then have "m * m < 2 ^ 53" by simp
    moreover have "0 < m * m" using False by simp
    moreover have "- 1022 \<le> q + q" "q + q \<le> 971" using r by linarith+
    ultimately obtain m1 q1 where n: "is_float binary64 (Fin False m1 q1)"
      "real m1 * 2 powi q1 = real (m * m) * 2 powi (q + q)"
      using normalise_double [of "m * m" "q + q" False] by blast
    have "(2::real) powi (q + q) = 2 powi q * 2 powi q" by (rule power_int_add) simp
    with n show ?thesis by (intro exI [of _ m1] exI [of _ q1]) simp
  qed
  then obtain m1 q1 where 1: "is_float binary64 (Fin False m1 q1)"
    "real m1 * 2 powi q1 = (real m * 2 powi q) * (real m * 2 powi q)" by blast
  have "(valof (Fin s m' q'))\<^sup>2 = real m1 * 2 powi q1"
    using 1(2) d(2) by (simp only: valof_square)
  with 1(1) have "muld (Fin s m' q') (Fin s m' q') = Fin False m1 q1" by (rule square_exact)
  with d(1) have "pow_2 (Fin s m q) = Fin False m1 q1" by (simp add: pow_2_def)
  with 1(2) show ?thesis by blast
qed

lemma fadd_rel_error:
  assumes p0: "0 < prec f"
    and v: "v = real m * 2 powi q + real n * 2 powi k" and v0: "0 < v"
    and lo: "2 powi (qmin f + int (prec f)) \<le> v"
    and hi: "v < 2 powi (qmax f + int (prec f) - 1)"
  shows "\<exists>m' q'. fadd f (Fin False m q) (Fin False n k) = Fin False m' q'
     \<and> \<bar>real m' * 2 powi q' - v\<bar> \<le> 2 powi (- int (prec f)) * v"
proof -
  define q0 where "q0 = min q k"
  define C where "C = m * 2 ^ nat (q - q0) + n * 2 ^ nat (k - q0)"
  have le: "q0 \<le> q" "q0 \<le> k" by (simp_all add: q0_def)
  have c: "scaled q0 False m q + scaled q0 False n k = int C"
    by (simp add: scaled_def C_def)
  have vC: "v = real C * 2 powi q0"
    by (simp add: v C_def powi_split [OF le(1)] powi_split [OF le(2)] algebra_simps)
  have C0: "0 < C" using v0 vC by (cases "C = 0") auto
  have tc: "real C = real C \<or> (odd C \<and> prec f + 2 \<le> bitlen C \<and> \<bar>real C - real C\<bar> < 1)"
    by simp
  from rnd_rel_error [OF C0 p0 tc vC lo hi, of False] obtain m' q'
    where r: "rnd f False C q0 = Fin False m' q'"
      "\<bar>real m' * 2 powi q' - v\<bar> \<le> 2 powi (- int (prec f)) * v" by blast
  have "rnd_int f False (int C) q0 = rnd f False C q0"
    using C0 by (simp add: rnd_int_def)
  with c have "fadd f (Fin False m q) (Fin False n k) = rnd f False C q0"
    by (simp add: q0_def)
  with r show ?thesis by auto
qed


lemma u_facts:
  "0 \<le> (2::real) powi (- 53)" "(2::real) powi (- 53) \<le> 1 / 16"
  "1 / 2 \<le> (1 - (2::real) powi (- 53)) * (1 - 2 powi (- 53))"
  "(1 + (2::real) powi (- 53)) * (1 + 2 powi (- 53)) \<le> 2"
  "1 / 2 \<le> 1 - (2::real) powi (- 53)" "1 + (2::real) powi (- 53) \<le> 2"
  by (simp_all add: power_int_minus field_simps)

lemma length_near:
  assumes x: "is_float binary32 (Fin sx mx qx)" and y: "is_float binary32 (Fin sy my qy)"
    and nz: "0 < mx \<or> 0 < my"
    and s: "s = (real mx * 2 powi qx) * (real mx * 2 powi qx)
              + (real my * 2 powi qy) * (real my * 2 powi qy)"
  shows "\<exists>mL qL. sqrtd (addd (pow_2 (Fin sx mx qx)) (pow_2 (Fin sy my qy))) = Fin False mL qL
      \<and> 0 < mL
      \<and> (1 - 2 powi (- 53)) * ((1 - 2 powi (- 53)) * sqrt s) \<le> real mL * 2 powi qL
      \<and> real mL * 2 powi qL \<le> (1 + 2 powi (- 53)) * ((1 + 2 powi (- 53)) * sqrt s)"
    and "2 powi (- 298) \<le> s" and "s < 2 powi 257"
proof -
  define a where "a = real mx * 2 powi qx"
  define b where "b = real my * 2 powi qy"
  define u :: real where "u = 2 powi (- 53)"
  have a0: "0 \<le> a" and b0: "0 \<le> b" by (simp_all add: a_def b_def)
  have sab: "s = a * a + b * b" by (simp add: s a_def b_def)
  have sq_lo: "(2::real) powi (- 298) = 2 powi (- 149) * 2 powi (- 149)"
    using power_int_add [of "2::real" "- 149" "- 149"] by simp
  have sq_hi: "(2::real) powi 256 = 2 powi 128 * 2 powi 128"
    using power_int_add [of "2::real" 128 128] by simp
  have ahi: "a * a < 2 powi 256"
  proof (cases "mx = 0")
    case True
    then show ?thesis by (simp add: a_def)
  next
    case False
    then have "a < 2 powi 128" using float_value_range(2) [OF x] by (simp add: a_def)
    then have "a * a < 2 powi 128 * 2 powi 128" using a0 by (intro mult_strict_mono') simp_all
    then show ?thesis by (simp only: sq_hi)
  qed
  have bhi: "b * b < 2 powi 256"
  proof (cases "my = 0")
    case True
    then show ?thesis by (simp add: b_def)
  next
    case False
    then have "b < 2 powi 128" using float_value_range(2) [OF y] by (simp add: b_def)
    then have "b * b < 2 powi 128 * 2 powi 128" using b0 by (intro mult_strict_mono') simp_all
    then show ?thesis by (simp only: sq_hi)
  qed
  have "(2::real) powi 257 = 2 * 2 powi 256" using powi_Suc [of 256] by simp
  with ahi bhi show shi: "s < 2 powi 257" by (simp add: sab)
  show slo: "2 powi (- 298) \<le> s"
  proof (cases "0 < mx")
    case True
    then have "2 powi (- 149) \<le> a" using float_value_range(1) [OF x] by (simp add: a_def)
    then have "2 powi (- 149) * 2 powi (- 149) \<le> a * a" by (intro mult_mono) simp_all
    moreover have "0 \<le> b * b" by simp
    ultimately show ?thesis unfolding sab sq_lo by linarith
  next
    case False
    with nz have "0 < my" by simp
    then have "2 powi (- 149) \<le> b" using float_value_range(1) [OF y] by (simp add: b_def)
    then have "2 powi (- 149) * 2 powi (- 149) \<le> b * b" by (intro mult_mono) simp_all
    moreover have "0 \<le> a * a" by simp
    ultimately show ?thesis unfolding sab sq_lo by linarith
  qed
  have s0: "0 < s"
  proof -
    have "0 < (2::real) powi (- 298)" by simp
    with slo show ?thesis by linarith
  qed
  from pow_2_float [OF x] obtain m1 q1 where 1: "pow_2 (Fin sx mx qx) = Fin False m1 q1"
    "real m1 * 2 powi q1 = a * a" unfolding a_def by blast
  from pow_2_float [OF y] obtain m2 q2 where 2: "pow_2 (Fin sy my qy) = Fin False m2 q2"
    "real m2 * 2 powi q2 = b * b" unfolding b_def by blast
  have p0: "0 < prec binary64" by (simp add: binary64_def)
  have vs: "s = real m1 * 2 powi q1 + real m2 * 2 powi q2" using 1(2) 2(2) sab by simp
  have lo1: "2 powi (qmin binary64 + int (prec binary64)) \<le> s"
  proof -
    have "(2::real) powi (- 1021) \<le> 2 powi (- 298)" by (intro power_int_increasing) simp_all
    with slo show ?thesis by (simp add: binary64_def)
  qed
  have hi1: "s < 2 powi (qmax binary64 + int (prec binary64) - 1)"
  proof -
    have "(2::real) powi 257 \<le> 2 powi 1023" by (intro power_int_increasing) simp_all
    with shi show ?thesis by (simp add: binary64_def)
  qed
  from fadd_rel_error [OF p0 vs s0 lo1 hi1] obtain mS qS
    where S: "addd (Fin False m1 q1) (Fin False m2 q2) = Fin False mS qS"
      "\<bar>real mS * 2 powi qS - s\<bar> \<le> u * s" by (auto simp: binary64_def u_def)
  define vS where "vS = real mS * 2 powi qS"
  have Sb: "(1 - u) * s \<le> vS" "vS \<le> (1 + u) * s"
    using S(2) by (simp_all add: vS_def abs_le_iff algebra_simps)
  have "(1 / 2) * s \<le> (1 - u) * s" using u_facts(5) s0 unfolding u_def by (intro mult_right_mono) simp_all
  with Sb(1) have Slo2: "s / 2 \<le> vS" by simp
  have "(1 + u) * s \<le> 2 * s" using u_facts(6) s0 unfolding u_def by (intro mult_right_mono) simp_all
  with Sb(2) have Shi2: "vS \<le> 2 * s" by simp
  have vS0: "0 < vS" using Slo2 s0 by linarith
  then have mS0: "0 < mS" by (cases "mS = 0") (auto simp: vS_def)
  have lo2: "2 powi (qmin binary64 + int (prec binary64)) \<le> sqrt vS"
  proof -
    have "((2::real) powi (- 1021))\<^sup>2 = 2 powi (- 2042)"
      using power_int_add [of "2::real" "- 1021" "- 1021"] by (simp add: power2_eq_square)
    also have "\<dots> \<le> 2 powi (- 299)" by (intro power_int_increasing) simp_all
    also have "\<dots> = 2 powi (- 298) / 2" using powi_Suc [of "- 299"] by simp
    also have "\<dots> \<le> vS" using slo Slo2 by linarith
    finally have "2 powi (- 1021) \<le> sqrt vS" by (rule real_le_rsqrt)
    then show ?thesis by (simp add: binary64_def)
  qed
  have hi2: "sqrt vS < 2 powi (qmax binary64 + int (prec binary64) - 1)"
  proof -
    have "vS < 2 * 2 powi 257" using Shi2 shi by linarith
    also have "\<dots> = 2 powi 258" using powi_Suc [of 257] by simp
    also have "\<dots> \<le> 2 powi 2046" by (intro power_int_increasing) simp_all
    also have "\<dots> = ((2::real) powi 1023)\<^sup>2"
      using power_int_add [of "2::real" 1023 1023] by (simp add: power2_eq_square)
    finally have "sqrt vS < 2 powi 1023" by (intro real_less_lsqrt) simp_all
    then show ?thesis by (simp add: binary64_def)
  qed
  from fsqrt_rel_error [OF mS0 p0 _ lo2 hi2, of qS] obtain mL qL
    where L: "sqrtd (Fin False mS qS) = Fin False mL qL"
      "\<bar>real mL * 2 powi qL - sqrt vS\<bar> \<le> u * sqrt vS"
    by (auto simp: binary64_def u_def vS_def)
  have uf: "0 \<le> u" "u \<le> 1 / 16" using u_facts(1,2) by (simp_all add: u_def)
  have S': "\<bar>vS - s\<bar> \<le> u * s" using S(2) by (simp add: vS_def)
  from length_analysis(3,4) [OF uf s0 S' L(2)]
  have Lb: "(1 - u) * ((1 - u) * sqrt s) \<le> real mL * 2 powi qL"
    "real mL * 2 powi qL \<le> (1 + u) * ((1 + u) * sqrt s)" by simp_all
  have "0 < (1 - u) * ((1 - u) * sqrt s)" using uf s0 by simp
  with Lb(1) have "0 < real mL * 2 powi qL" by linarith
  then have mL0: "0 < mL" by (cases "mL = 0") auto
  show "\<exists>mL qL. sqrtd (addd (pow_2 (Fin sx mx qx)) (pow_2 (Fin sy my qy))) = Fin False mL qL
      \<and> 0 < mL
      \<and> (1 - 2 powi (- 53)) * ((1 - 2 powi (- 53)) * sqrt s) \<le> real mL * 2 powi qL
      \<and> real mL * 2 powi qL \<le> (1 + 2 powi (- 53)) * ((1 + 2 powi (- 53)) * sqrt s)"
    using 1(1) 2(1) S(1) L(1) mL0 Lb unfolding u_def by auto
qed


lemma rnd_quot_zero: "rnd_quot f s 0 n E = Fin s 0 (qmin f)"
  by (simp add: rnd_quot_def rnd_quot_sh_def with_sticky_def rnd_def)

lemma component_near:
  assumes x: "is_float binary32 (Fin sx mx qx)"
    and mL: "0 < mL"
    and s0: "0 < s" and as: "(real mx * 2 powi qx) * (real mx * 2 powi qx) \<le> s"
    and shi: "s < 2 powi 257"
    and Llo: "(1 - 2 powi (- 53)) * ((1 - 2 powi (- 53)) * sqrt s) \<le> real mL * 2 powi qL"
    and Lhi: "real mL * 2 powi qL \<le> (1 + 2 powi (- 53)) * ((1 + 2 powi (- 53)) * sqrt s)"
  shows "\<exists>mr qr. to_float (divd (to_double (Fin sx mx qx)) (Fin False mL qL)) = Fin sx mr qr
     \<and> \<bar>real mr * 2 powi qr - (real mx * 2 powi qx) / sqrt s\<bar> \<le> 2 powi (- 23)"
proof -
  define a where "a = real mx * 2 powi qx"
  define u :: real where "u = 2 powi (- 53)"
  define l where "l = sqrt s"
  define vL where "vL = real mL * 2 powi qL"
  have a0: "0 \<le> a" by (simp add: a_def)
  have l0: "0 < l" using s0 by (simp add: l_def)
  have uf: "0 \<le> u" "u \<le> 1 / 16" using u_facts(1,2) by (simp_all add: u_def)
  from x obtain m' q' where d: "to_double (Fin sx mx qx) = Fin sx m' q'"
    "real m' * 2 powi q' = a" unfolding a_def by (rule to_double_exact)
  show ?thesis
  proof (cases "mx = 0")
    case True
    then have "m' = 0" using d(2) by (simp add: a_def)
    then have "divd (to_double (Fin sx mx qx)) (Fin False mL qL) = Fin sx 0 (qmin binary64)"
      using d(1) mL by (simp add: rnd_quot_zero)
    then have "to_float (divd (to_double (Fin sx mx qx)) (Fin False mL qL)) = Fin sx 0 (qmin binary32)"
      by (simp add: rnd_def)
    with True show ?thesis by simp
  next
    case False
    then have mx0: "0 < mx" by simp
    then have m'0: "0 < m'" using d(2) by (cases "m' = 0") (auto simp: a_def)
    have alo: "2 powi (- 149) \<le> a" using float_value_range(1) [OF x mx0] by (simp add: a_def)
    have al: "a \<le> l" unfolding l_def using as a0
      by (intro real_le_rsqrt) (simp add: power2_eq_square a_def)
    have lhi: "l < 2 powi 129"
    proof -
      have "s < 2 powi 258" using shi powi_Suc [of 257] by simp
      also have "\<dots> = ((2::real) powi 129)\<^sup>2"
        using power_int_add [of "2::real" 129 129] by (simp add: power2_eq_square)
      finally show ?thesis unfolding l_def by (intro real_less_lsqrt) simp_all
    qed
    have Llo': "(1 - u) * ((1 - u) * l) \<le> vL" using Llo by (simp only: u_def l_def vL_def)
    have Lhi': "vL \<le> (1 + u) * ((1 + u) * l)" using Lhi by (simp only: u_def l_def vL_def)
    have Ll: "l / 2 \<le> vL"
    proof -
      have "(1 / 2) * l \<le> ((1 - u) * (1 - u)) * l"
        using u_facts(3) l0 unfolding u_def by (intro mult_right_mono) simp_all
      then have "(1 / 2) * l \<le> (1 - u) * ((1 - u) * l)" by (simp only: mult.assoc)
      then have "l / 2 \<le> (1 - u) * ((1 - u) * l)" by linarith
      with Llo' show ?thesis by linarith
    qed
    have Lu: "vL \<le> 2 * l"
    proof -
      have "((1 + u) * (1 + u)) * l \<le> 2 * l"
        using u_facts(4) l0 unfolding u_def by (intro mult_right_mono) simp_all
      then have "(1 + u) * ((1 + u) * l) \<le> 2 * l" by (simp only: mult.assoc)
      with Lhi' show ?thesis by linarith
    qed
    have vL0: "0 < vL" using Ll l0 by linarith
    define v where "v = a / vL"
    have v': "v = (real m' * 2 powi q') / (real mL * 2 powi qL)"
      by (simp add: v_def d(2) vL_def)
    have vhi: "v \<le> 2"
    proof -
      have "a \<le> 2 * vL" using al Ll by linarith
      then show ?thesis using vL0 by (simp add: v_def field_simps)
    qed
    have vlo: "2 powi (- 279) \<le> v"
    proof -
      have "vL < 2 * 2 powi 129" using Lu lhi by linarith
      then have "vL < 2 powi 130" using powi_Suc [of 129] by simp
      then have "2 powi (- 279) * vL \<le> 2 powi (- 279) * 2 powi 130"
        by (intro mult_left_mono) simp_all
      also have "\<dots> = 2 powi (- 149)" using power_int_add [of "2::real" "- 279" 130] by simp
      also have "\<dots> \<le> a" by (rule alo)
      finally show ?thesis using vL0 by (simp add: v_def field_simps)
    qed
    have p0: "0 < prec binary64" by (simp add: binary64_def)
    have lo1: "2 powi (qmin binary64 + int (prec binary64)) \<le> v"
    proof -
      have "(2::real) powi (- 1021) \<le> 2 powi (- 279)" by (intro power_int_increasing) simp_all
      with vlo show ?thesis by (simp add: binary64_def)
    qed
    have hi1: "v < 2 powi (qmax binary64 + int (prec binary64) - 1)"
    proof -
      have "(2::real) < 2 powi 1023" using power_int_strict_increasing [of 1 1023 "2::real"] by simp
      with vhi show ?thesis by (simp add: binary64_def)
    qed
    from fdiv_rel_error [OF m'0 mL p0 v' lo1 hi1, of sx False] obtain mD qD
      where D: "divd (Fin sx m' q') (Fin False mL qL) = Fin sx mD qD"
        "\<bar>real mD * 2 powi qD - v\<bar> \<le> u * v" by (auto simp: binary64_def u_def)
    define vD where "vD = real mD * 2 powi qD"
    have as': "a * a \<le> s" using as by (simp add: a_def)
    have D': "\<bar>vD - a / vL\<bar> \<le> u * (a / vL)" using D(2) by (simp add: vD_def v_def)
    from quotient_analysis [OF uf a0 s0 as' Llo [folded u_def vL_def] Lhi [folded u_def vL_def] D']
    have q: "\<bar>vD - a / sqrt s\<bar> \<le> 4 * u" "0 \<le> vD" "vD \<le> 5 / 4" by simp_all
    show ?thesis
    proof (cases "mD = 0")
      case True
      then have "to_float (Fin sx mD qD) = Fin sx 0 (qmin binary32)" by (simp add: rnd_def)
      moreover have "\<bar>real 0 * 2 powi (qmin binary32) - a / sqrt s\<bar> \<le> 2 powi (- 23)"
      proof -
        have "vD = 0" using True by (simp add: vD_def)
        with q(1) have "\<bar>0 - a / sqrt s\<bar> \<le> 4 * u" by simp
        moreover have "4 * u \<le> 2 powi (- 23)" by (simp add: u_def power_int_minus)
        ultimately have "\<bar>0 - a / sqrt s\<bar> \<le> 2 powi (- 23)" by (rule order_trans)
        moreover have "real 0 * 2 powi (qmin binary32) = 0" by simp
        ultimately show ?thesis by (simp only:)
      qed
      ultimately show ?thesis using d(1) D(1) unfolding a_def by auto
    next
      case False
      then have mD0: "0 < mD" by simp
      have p32: "0 < prec binary32" "qmin binary32 < qmax binary32"
        by (simp_all add: binary32_def)
      have "(5::real) / 4 < 2 powi 127" using power_int_strict_increasing [of 1 127 "2::real"] by simp
      with q(3) have hi3: "real mD * 2 powi qD < 2 powi (qmax binary32 + int (prec binary32) - 1)"
        by (simp add: vD_def binary32_def)
      from rnd_abs_error [OF mD0 p32 hi3, of sx] obtain mr qr
        where r: "rnd binary32 sx mD qD = Fin sx mr qr"
          "\<bar>real mr * 2 powi qr - vD\<bar> \<le> 2 powi (- 24) * vD + 2 powi (- 150)"
        by (auto simp: binary32_def vD_def)
      have "2 powi (- 24) * vD \<le> 2 powi (- 24) * (5 / 4)"
        using q(3) by (intro mult_left_mono) simp_all
      with r(2) have "\<bar>real mr * 2 powi qr - vD\<bar> \<le> 2 powi (- 24) * (5 / 4) + 2 powi (- 150)"
        by linarith
      with q(1) have "\<bar>real mr * 2 powi qr - a / sqrt s\<bar>
          \<le> 2 powi (- 24) * (5 / 4) + 2 powi (- 150) + 4 * u" by linarith
      also have "\<dots> \<le> 2 powi (- 23)" by (simp add: u_def power_int_minus)
      finally have "\<bar>real mr * 2 powi qr - a / sqrt s\<bar> \<le> 2 powi (- 23)" .
      with r(1) d(1) D(1) show ?thesis unfolding a_def by auto
    qed
  qed
qed


lemma zero_length_guard:
  "flt (sqrtd (addd (pow_2 (Fin sx 0 qx)) (pow_2 (Fin sy 0 qy)))) (to_double FLT_EPSILON)"
  by (simp add: fp_eval)

lemma signed_near:
  assumes "\<bar>r - c\<bar> \<le> (e::real)"
  shows "\<bar>(if s then - 1 else 1) * r - (if s then - 1 else 1) * c\<bar> \<le> e"
  using assms by (cases s) (simp_all add: abs_le_iff)

lemma normalized_near_unit:
  assumes x: "is_float binary32 x" "is_finite x" and y: "is_float binary32 y" "is_finite y"
    and ng: "\<not> flt (sqrtd (addd (pow_2 x) (pow_2 y))) (to_double FLT_EPSILON)"
  shows "is_finite (x_coord (normalized (Vector2_of x y)))
     \<and> is_finite (y_coord (normalized (Vector2_of x y)))
     \<and> \<bar>valof (x_coord (normalized (Vector2_of x y)))
          - valof x / sqrt ((valof x)\<^sup>2 + (valof y)\<^sup>2)\<bar> \<le> 2 powi (- 23)
     \<and> \<bar>valof (y_coord (normalized (Vector2_of x y)))
          - valof y / sqrt ((valof x)\<^sup>2 + (valof y)\<^sup>2)\<bar> \<le> 2 powi (- 23)"
proof -
  from x(2) obtain sx mx qx where xf: "x = Fin sx mx qx"
    by (cases x) (simp_all add: is_finite_def)
  from y(2) obtain sy my qy where yf: "y = Fin sy my qy"
    by (cases y) (simp_all add: is_finite_def)
  define a where "a = real mx * 2 powi qx"
  define b where "b = real my * 2 powi qy"
  define s where "s = a * a + b * b"
  have nz: "0 < mx \<or> 0 < my"
  proof (rule ccontr)
    assume "\<not> (0 < mx \<or> 0 < my)"
    then have "mx = 0" "my = 0" by simp_all
    with ng show False unfolding xf yf using zero_length_guard [of sx qx sy qy] by simp
  qed
  have fx: "is_float binary32 (Fin sx mx qx)" and fy: "is_float binary32 (Fin sy my qy)"
    using x(1) y(1) by (simp_all add: xf yf)
  have sdef: "s = (real mx * 2 powi qx) * (real mx * 2 powi qx)
              + (real my * 2 powi qy) * (real my * 2 powi qy)"
    by (simp add: s_def a_def b_def)
  from length_near [OF fx fy nz sdef] obtain mL qL
    where L: "sqrtd (addd (pow_2 (Fin sx mx qx)) (pow_2 (Fin sy my qy))) = Fin False mL qL"
      "0 < mL"
      "(1 - 2 powi (- 53)) * ((1 - 2 powi (- 53)) * sqrt s) \<le> real mL * 2 powi qL"
      "real mL * 2 powi qL \<le> (1 + 2 powi (- 53)) * ((1 + 2 powi (- 53)) * sqrt s)"
    and sr: "2 powi (- 298) \<le> s" "s < 2 powi 257" by blast
  have s0: "0 < s"
  proof -
    have "0 < (2::real) powi (- 298)" by simp
    with sr(1) show ?thesis by linarith
  qed
  have as: "(real mx * 2 powi qx) * (real mx * 2 powi qx) \<le> s"
    and bs: "(real my * 2 powi qy) * (real my * 2 powi qy) \<le> s"
    by (simp_all add: sdef)
  from component_near [OF fx L(2) s0 as sr(2) L(3) L(4)] obtain mr qr
    where rx: "to_float (divd (to_double (Fin sx mx qx)) (Fin False mL qL)) = Fin sx mr qr"
      "\<bar>real mr * 2 powi qr - a / sqrt s\<bar> \<le> 2 powi (- 23)" unfolding a_def by blast
  from component_near [OF fy L(2) s0 bs sr(2) L(3) L(4)] obtain nr kr
    where ry: "to_float (divd (to_double (Fin sy my qy)) (Fin False mL qL)) = Fin sy nr kr"
      "\<bar>real nr * 2 powi kr - b / sqrt s\<bar> \<le> 2 powi (- 23)" unfolding b_def by blast
  have n: "normalized (Vector2_of x y) = \<lparr>x_coord = Fin sx mr qr, y_coord = Fin sy nr kr\<rparr>"
    using ng L(1) rx(1) ry(1) unfolding xf yf by (simp add: normalized_def Vector2_of_def Let_def)
  have sv: "(valof x)\<^sup>2 + (valof y)\<^sup>2 = s"
    by (simp add: xf yf s_def a_def b_def power2_eq_square)
  have vx: "valof x / sqrt s = (if sx then - 1 else 1) * (a / sqrt s)"
    by (simp add: xf a_def)
  have vy: "valof y / sqrt s = (if sy then - 1 else 1) * (b / sqrt s)"
    by (simp add: yf b_def)
  have ex: "\<bar>valof (Fin sx mr qr) - valof x / sqrt s\<bar> \<le> 2 powi (- 23)"
    using signed_near [OF rx(2), of sx] unfolding vx by (simp add: mult.assoc)
  have ey: "\<bar>valof (Fin sy nr kr) - valof y / sqrt s\<bar> \<le> 2 powi (- 23)"
    using signed_near [OF ry(2), of sy] unfolding vy by (simp add: mult.assoc)
  show ?thesis unfolding n sv using ex ey by (simp add: is_finite_def)
qed

section \<open>The claims\<close>

text \<open>
  C1. For \<open>Vector2\<close> and \<open>Vector3\<close>, \<open>operator!=\<close> is true exactly when every component
  passes the test \<open>fabs(a - b) > FLT_EPSILON\<close>. It is not the negation of \<open>operator==\<close>:
  \<open>Vector3(2,3,4) == Vector3(2,3,4)\<close> is true, \<open>Vector3(2,3,4) == Vector3(2,3,5)\<close> is false
  and \<open>Vector3(2,3,4) != Vector3(2,3,5)\<close> is false too; likewise \<open>Vector2(2,3)\<close> and
  \<open>Vector2(2,4)\<close> are neither equal nor unequal.
\<close>

theorem ne_needs_every_component:
  "(Vector2_ne v w \<longleftrightarrow>
      fgt (fabs (subf (x_coord v) (x_coord w))) FLT_EPSILON
      \<and> fgt (fabs (subf (y_coord v) (y_coord w))) FLT_EPSILON)
   \<and> (Vector3_ne a b \<longleftrightarrow>
      fgt (fabs (subf (val_0 a) (val_0 b))) FLT_EPSILON
      \<and> fgt (fabs (subf (val_1 a) (val_1 b))) FLT_EPSILON
      \<and> fgt (fabs (subf (val_2 a) (val_2 b))) FLT_EPSILON)
   \<and> Vector3_eq (Vector3_of (f32 2) (f32 3) (f32 4)) (Vector3_of (f32 2) (f32 3) (f32 4))
   \<and> \<not> Vector3_eq (Vector3_of (f32 2) (f32 3) (f32 4)) (Vector3_of (f32 2) (f32 3) (f32 5))
   \<and> \<not> Vector3_ne (Vector3_of (f32 2) (f32 3) (f32 4)) (Vector3_of (f32 2) (f32 3) (f32 5))
   \<and> \<not> Vector2_eq (Vector2_of (f32 2) (f32 3)) (Vector2_of (f32 2) (f32 4))
   \<and> \<not> Vector2_ne (Vector2_of (f32 2) (f32 3)) (Vector2_of (f32 2) (f32 4))"
  by (simp add: Vector2_ne_def Vector3_ne_def Vector2_eq_def Vector3_eq_def Vector2_of_def
      Vector3_of_def f32_values fp_eval)

text \<open>
  C2, as stated, fails in its last part. The receiver \<open>(\<infinity>, 0)\<close> has the length \<open>\<infinity>\<close>, which
  is not below \<open>FLT_EPSILON\<close>, and \<open>normalized()\<close> returns \<open>(\<infinity>/\<infinity>, 0/\<infinity>) = (NaN, 0)\<close>, whose
  length is NaN. For the finite receiver \<open>(1, 1)\<close> it returns \<open>(c, c)\<close> with
  \<open>c = 11863283 / 2^24\<close>, the \<open>float\<close> nearest to \<open>1 / sqrt 2\<close>, and \<open>c\<^sup>2 + c\<^sup>2\<close> is not 1: the
  result is a unit vector only up to rounding.
\<close>

theorem normalized_not_unit:
  "normalized (Vector2_of (Inf False) (f32 0)) = Vector2_of NaN (f32 0)
   \<and> abs_Vector2 (normalized (Vector2_of (Inf False) (f32 0))) = NaN
   \<and> normalized (Vector2_of (f32 1) (f32 1))
        = Vector2_of (Fin False 11863283 (- 24)) (Fin False 11863283 (- 24))
   \<and> (valof (x_coord (normalized (Vector2_of (f32 1) (f32 1)))))\<^sup>2
       + (valof (y_coord (normalized (Vector2_of (f32 1) (f32 1)))))\<^sup>2 \<noteq> 1"
proof (intro conjI)
  show "normalized (Vector2_of (Inf False) (f32 0)) = Vector2_of NaN (f32 0)"
    by (simp add: normalized_def Vector2_of_def fp_eval)
  show "abs_Vector2 (normalized (Vector2_of (Inf False) (f32 0))) = NaN"
    by (simp add: normalized_def Vector2_of_def abs_Vector2_def Vector2_dot_def fp_eval)
  show n: "normalized (Vector2_of (f32 1) (f32 1))
        = Vector2_of (Fin False 11863283 (- 24)) (Fin False 11863283 (- 24))"
    by (simp add: normalized_def Vector2_of_def fp_eval)
  show "(valof (x_coord (normalized (Vector2_of (f32 1) (f32 1)))))\<^sup>2
       + (valof (y_coord (normalized (Vector2_of (f32 1) (f32 1)))))\<^sup>2 \<noteq> 1"
    unfolding n by (simp add: Vector2_of_def power_int_minus power2_eq_square)
qed

text \<open>
  C2, amended. \<open>normalized()\<close> returns the receiver unchanged when the length, computed in
  double precision as \<open>sqrt(pow(x,2) + pow(y,2))\<close>, is below \<open>FLT_EPSILON\<close>, and otherwise the
  quotients \<open>x / length\<close> and \<open>y / length\<close>, computed in double precision and converted to
  \<open>float\<close>. So \<open>Vector2(0,0)\<close> and \<open>Vector2(2^-24, 0)\<close> come back unchanged, and
  \<open>Vector2(3,4)\<close> becomes \<open>(0.6f, 0.8f)\<close>. When the components \<open>x\<close> and \<open>y\<close> of the receiver are
  finite and the length is not below \<open>FLT_EPSILON\<close>, the result is finite and each of its
  components is within \<open>2^-23\<close> of the component of the exact unit vector
  \<open>(x, y) / sqrt (x\<^sup>2 + y\<^sup>2)\<close>: a unit vector in the same direction, up to rounding.
\<close>

theorem normalized_guard_and_quotients:
  "normalized v =
     (if flt (sqrtd (addd (pow_2 (x_coord v)) (pow_2 (y_coord v)))) (to_double FLT_EPSILON) then v
      else \<lparr>x_coord = to_float (divd (to_double (x_coord v))
                (sqrtd (addd (pow_2 (x_coord v)) (pow_2 (y_coord v))))),
            y_coord = to_float (divd (to_double (y_coord v))
                (sqrtd (addd (pow_2 (x_coord v)) (pow_2 (y_coord v)))))\<rparr>)
   \<and> normalized (Vector2_of (f32 0) (f32 0)) = Vector2_of (f32 0) (f32 0)
   \<and> normalized (Vector2_of (Fin False 8388608 (- 47)) (f32 0))
        = Vector2_of (Fin False 8388608 (- 47)) (f32 0)
   \<and> normalized (Vector2_of (f32 3) (f32 4))
        = Vector2_of (Fin False 10066330 (- 24)) (Fin False 13421773 (- 24))
   \<and> (is_float binary32 x \<and> is_finite x \<and> is_float binary32 y \<and> is_finite y
        \<and> \<not> flt (sqrtd (addd (pow_2 x) (pow_2 y))) (to_double FLT_EPSILON)
      \<longrightarrow> is_finite (x_coord (normalized (Vector2_of x y)))
        \<and> is_finite (y_coord (normalized (Vector2_of x y)))
        \<and> \<bar>valof (x_coord (normalized (Vector2_of x y)))
             - valof x / sqrt ((valof x)\<^sup>2 + (valof y)\<^sup>2)\<bar> \<le> 2 powi (- 23)
        \<and> \<bar>valof (y_coord (normalized (Vector2_of x y)))
             - valof y / sqrt ((valof x)\<^sup>2 + (valof y)\<^sup>2)\<bar> \<le> 2 powi (- 23))"
proof (intro conjI impI)
  show "normalized (Vector2_of (f32 0) (f32 0)) = Vector2_of (f32 0) (f32 0)"
    by (simp add: normalized_def Vector2_of_def fp_eval)
  show "normalized (Vector2_of (Fin False 8388608 (- 47)) (f32 0))
        = Vector2_of (Fin False 8388608 (- 47)) (f32 0)"
    by (simp add: normalized_def Vector2_of_def fp_eval)
  show "normalized (Vector2_of (f32 3) (f32 4))
        = Vector2_of (Fin False 10066330 (- 24)) (Fin False 13421773 (- 24))"
    by (simp add: normalized_def Vector2_of_def fp_eval)
next
  assume h: "is_float binary32 x \<and> is_finite x \<and> is_float binary32 y \<and> is_finite y
        \<and> \<not> flt (sqrtd (addd (pow_2 x) (pow_2 y))) (to_double FLT_EPSILON)"
  then have n: "is_finite (x_coord (normalized (Vector2_of x y)))
     \<and> is_finite (y_coord (normalized (Vector2_of x y)))
     \<and> \<bar>valof (x_coord (normalized (Vector2_of x y)))
          - valof x / sqrt ((valof x)\<^sup>2 + (valof y)\<^sup>2)\<bar> \<le> 2 powi (- 23)
     \<and> \<bar>valof (y_coord (normalized (Vector2_of x y)))
          - valof y / sqrt ((valof x)\<^sup>2 + (valof y)\<^sup>2)\<bar> \<le> 2 powi (- 23)"
    by (intro normalized_near_unit) simp_all
  from n show "is_finite (x_coord (normalized (Vector2_of x y)))" by simp
  from n show "is_finite (y_coord (normalized (Vector2_of x y)))" by simp
  from n show "\<bar>valof (x_coord (normalized (Vector2_of x y)))
          - valof x / sqrt ((valof x)\<^sup>2 + (valof y)\<^sup>2)\<bar> \<le> 2 powi (- 23)" by simp
  from n show "\<bar>valof (y_coord (normalized (Vector2_of x y)))
          - valof y / sqrt ((valof x)\<^sup>2 + (valof y)\<^sup>2)\<bar> \<le> 2 powi (- 23)" by simp
qed (simp add: normalized_def Let_def)

theorem normalized_guard_and_quotients_witness:
  "\<bar>valof (x_coord (normalized (Vector2_of (f32 3) (f32 4))))
      - valof (f32 3) / sqrt ((valof (f32 3))\<^sup>2 + (valof (f32 4))\<^sup>2)\<bar> \<le> 2 powi (- 23)
   \<and> \<bar>valof (y_coord (normalized (Vector2_of (f32 3) (f32 4))))
      - valof (f32 4) / sqrt ((valof (f32 3))\<^sup>2 + (valof (f32 4))\<^sup>2)\<bar> \<le> 2 powi (- 23)"
proof -
  have "is_float binary32 (f32 3)" "is_float binary32 (f32 4)"
    by (simp_all add: f32_values is_float_def binary32_def)
  moreover have "is_finite (f32 3)" "is_finite (f32 4)"
    by (simp_all add: f32_values is_finite_def)
  moreover have "\<not> flt (sqrtd (addd (pow_2 (f32 3)) (pow_2 (f32 4)))) (to_double FLT_EPSILON)"
    by (simp add: fp_eval)
  ultimately show ?thesis
    using normalized_guard_and_quotients [of "Vector2_of (f32 3) (f32 4)" "f32 3" "f32 4"]
    by blast
qed

text \<open>
  C4, as stated, fails: for \<open>v = (\<infinity>, 0)\<close> the sum \<open>v + (-v)\<close> has the component
  \<open>\<infinity> + (-\<infinity>) = NaN\<close> and does not compare equal to the zero vector; the same holds for
  \<open>Vector3\<close>.
\<close>

theorem add_neg_infinite_not_zero:
  "\<not> Vector2_eq (Vector2_add (Vector2_of (Inf False) (f32 0))
         (Vector2_neg (Vector2_of (Inf False) (f32 0)))) Vector2_default
   \<and> \<not> Vector3_eq (Vector3_add (Vector3_of (Inf False) (f32 0) (f32 0))
         (Vector3_neg (Vector3_of (Inf False) (f32 0) (f32 0)))) Vector3_default"
  by (simp add: Vector2_eq_def Vector2_add_def Vector2_neg_def Vector2_default_def
      Vector2_of_def Vector3_eq_def Vector3_add_def Vector3_neg_def Vector3_default_def
      Vector3_of_def fsub_def)

text \<open>
  C4, amended. \<open>v + (-v)\<close> compares equal to the zero vector under \<open>operator==\<close> exactly
  when every component of \<open>v\<close> is finite (neither infinite nor NaN), for \<open>Vector2\<close> and for
  \<open>Vector3\<close>.
\<close>

theorem add_neg_is_zero_iff_finite:
  "(Vector2_eq (Vector2_add v (Vector2_neg v)) Vector2_default
      \<longleftrightarrow> is_finite (x_coord v) \<and> is_finite (y_coord v))
   \<and> (Vector3_eq (Vector3_add w (Vector3_neg w)) Vector3_default
      \<longleftrightarrow> is_finite (val_0 w) \<and> is_finite (val_1 w) \<and> is_finite (val_2 w))"
  by (simp add: Vector2_eq_def Vector2_add_def Vector2_neg_def Vector2_default_def
      Vector3_eq_def Vector3_add_def Vector3_neg_def Vector3_default_def cancel_component)

theorem add_neg_is_zero_witness:
  "Vector2_eq (Vector2_add (Vector2_of (f32 3) (f32 4)) (Vector2_neg (Vector2_of (f32 3) (f32 4))))
     Vector2_default
   \<and> Vector3_eq (Vector3_add (Vector3_of (f32 2) (f32 3) (f32 4))
        (Vector3_neg (Vector3_of (f32 2) (f32 3) (f32 4)))) Vector3_default"
  using add_neg_is_zero_iff_finite [of "Vector2_of (f32 3) (f32 4)"
      "Vector3_of (f32 2) (f32 3) (f32 4)"]
  by (simp add: Vector2_of_def Vector3_of_def f32_values is_finite_def)

text \<open>
  C5, as stated, fails: for \<open>v = (2^64, 2^64, 0)\<close> the product \<open>2^64 * 2^64\<close> overflows to
  \<open>\<infinity>\<close>. Built without contraction, the third component of \<open>cross(v, v)\<close> is
  \<open>\<infinity> - \<infinity> = NaN\<close>; built with contraction it is \<open>fmaf(2^64, 2^64, -\<infinity>) = -\<infinity>\<close>. Either way
  \<open>cross(v, v)\<close> is not the zero vector and does not compare equal to \<open>-cross(v, v)\<close>.
\<close>

theorem cross_overflow_not_zero:
  "cross (Vector3_of (f32 (2 ^ 64)) (f32 (2 ^ 64)) (f32 0))
         (Vector3_of (f32 (2 ^ 64)) (f32 (2 ^ 64)) (f32 0))
     = Vector3_of (f32 0) (f32 0) NaN
   \<and> cross (Vector3_of (f32 (2 ^ 64)) (f32 (2 ^ 64)) (f32 0))
         (Vector3_of (f32 (2 ^ 64)) (f32 (2 ^ 64)) (f32 0))
     \<noteq> Vector3_default
   \<and> \<not> Vector3_eq
        (cross (Vector3_of (f32 (2 ^ 64)) (f32 (2 ^ 64)) (f32 0))
               (Vector3_of (f32 (2 ^ 64)) (f32 (2 ^ 64)) (f32 0)))
        (Vector3_neg (cross (Vector3_of (f32 (2 ^ 64)) (f32 (2 ^ 64)) (f32 0))
               (Vector3_of (f32 (2 ^ 64)) (f32 (2 ^ 64)) (f32 0))))
   \<and> cross_fma (Vector3_of (f32 (2 ^ 64)) (f32 (2 ^ 64)) (f32 0))
         (Vector3_of (f32 (2 ^ 64)) (f32 (2 ^ 64)) (f32 0))
     = Vector3_of (f32 0) (f32 0) (Inf True)
   \<and> cross_fma (Vector3_of (f32 (2 ^ 64)) (f32 (2 ^ 64)) (f32 0))
         (Vector3_of (f32 (2 ^ 64)) (f32 (2 ^ 64)) (f32 0))
     \<noteq> Vector3_default
   \<and> \<not> Vector3_eq
        (cross_fma (Vector3_of (f32 (2 ^ 64)) (f32 (2 ^ 64)) (f32 0))
               (Vector3_of (f32 (2 ^ 64)) (f32 (2 ^ 64)) (f32 0)))
        (Vector3_neg (cross_fma (Vector3_of (f32 (2 ^ 64)) (f32 (2 ^ 64)) (f32 0))
               (Vector3_of (f32 (2 ^ 64)) (f32 (2 ^ 64)) (f32 0))))"
  by (simp add: cross_def cross_fma_def Vector3_of_def Vector3_default_def Vector3_eq_def
      Vector3_neg_def fp_eval)

text \<open>
  C5, amended. Built without contraction of floating-point expressions (every product
  and every difference rounded to \<open>float\<close> by itself): \<open>cross(v, v)\<close> is the zero vector
  exactly when the three products \<open>y*z\<close>, \<open>z*x\<close> and \<open>x*y\<close> of the components of \<open>v\<close> are
  finite (no overflow, no NaN); \<open>cross(a, b) == -cross(b, a)\<close> holds under \<open>operator==\<close>
  exactly when the three components of \<open>cross(a, b)\<close> are finite; and
  \<open>cross((1,0,0), (0,1,0))\<close> is \<open>(0,0,1)\<close>.

  Built with contraction (each component \<open>a*b - c*d\<close> computed as \<open>fmaf(a, b, -(c*d))\<close>):
  \<open>cross(v, v)\<close> is the zero vector when the three products are finite and exact in \<open>float\<close>,
  that is, when rounding does not change them; otherwise it need not be, and
  \<open>cross(a, b) == -cross(b, a)\<close> can fail for finite components: for
  \<open>v = (16777215, 16777215, 0)\<close>, \<open>cross(v, v)\<close> is \<open>(0, 0, 1)\<close>, the rounding error of
  \<open>16777215 * 16777215\<close>, and does not compare equal to \<open>-cross(v, v)\<close>.
  \<open>cross((1,0,0), (0,1,0))\<close> is \<open>(0,0,1)\<close> in this build too.
\<close>

theorem cross_self_and_anticommutative:
  "(cross v v = Vector3_default \<longleftrightarrow>
      is_finite (mulf (val_1 v) (val_2 v)) \<and> is_finite (mulf (val_2 v) (val_0 v))
      \<and> is_finite (mulf (val_0 v) (val_1 v)))
   \<and> (Vector3_eq (cross a b) (Vector3_neg (cross b a)) \<longleftrightarrow>
      is_finite (val_0 (cross a b)) \<and> is_finite (val_1 (cross a b))
      \<and> is_finite (val_2 (cross a b)))
   \<and> cross (Vector3_of (f32 1) (f32 0) (f32 0)) (Vector3_of (f32 0) (f32 1) (f32 0))
        = Vector3_of (f32 0) (f32 0) (f32 1)
   \<and> (is_finite (mulf (val_1 v) (val_2 v))
        \<and> valof (mulf (val_1 v) (val_2 v)) = valof (val_1 v) * valof (val_2 v)
        \<and> is_finite (mulf (val_2 v) (val_0 v))
        \<and> valof (mulf (val_2 v) (val_0 v)) = valof (val_2 v) * valof (val_0 v)
        \<and> is_finite (mulf (val_0 v) (val_1 v))
        \<and> valof (mulf (val_0 v) (val_1 v)) = valof (val_0 v) * valof (val_1 v)
      \<longrightarrow> cross_fma v v = Vector3_default)
   \<and> cross_fma (Vector3_of (f32 16777215) (f32 16777215) (f32 0))
        (Vector3_of (f32 16777215) (f32 16777215) (f32 0))
        = Vector3_of (f32 0) (f32 0) (f32 1)
   \<and> \<not> Vector3_eq
        (cross_fma (Vector3_of (f32 16777215) (f32 16777215) (f32 0))
           (Vector3_of (f32 16777215) (f32 16777215) (f32 0)))
        (Vector3_neg (cross_fma (Vector3_of (f32 16777215) (f32 16777215) (f32 0))
           (Vector3_of (f32 16777215) (f32 16777215) (f32 0))))
   \<and> cross_fma (Vector3_of (f32 1) (f32 0) (f32 0)) (Vector3_of (f32 0) (f32 1) (f32 0))
        = Vector3_of (f32 0) (f32 0) (f32 1)"
proof (intro conjI impI)
  have sw: "mulf (val_2 v) (val_1 v) = mulf (val_1 v) (val_2 v)"
    "mulf (val_0 v) (val_2 v) = mulf (val_2 v) (val_0 v)"
    "mulf (val_1 v) (val_0 v) = mulf (val_0 v) (val_1 v)"
    by (rule fmul_commute)+
  show "cross v v = Vector3_default \<longleftrightarrow>
      is_finite (mulf (val_1 v) (val_2 v)) \<and> is_finite (mulf (val_2 v) (val_0 v))
      \<and> is_finite (mulf (val_0 v) (val_1 v))"
    by (simp add: cross_def Vector3_default_def sw fsub_self f32_values qmin_binary32)
  assume h: "is_finite (mulf (val_1 v) (val_2 v))
        \<and> valof (mulf (val_1 v) (val_2 v)) = valof (val_1 v) * valof (val_2 v)
        \<and> is_finite (mulf (val_2 v) (val_0 v))
        \<and> valof (mulf (val_2 v) (val_0 v)) = valof (val_2 v) * valof (val_0 v)
        \<and> is_finite (mulf (val_0 v) (val_1 v))
        \<and> valof (mulf (val_0 v) (val_1 v)) = valof (val_0 v) * valof (val_1 v)"
  have "fmaf (val_1 v) (val_2 v) (fneg (mulf (val_2 v) (val_1 v))) = Fin False 0 (qmin binary32)"
    by (rule ffma_cancel) (simp_all add: sw h)
  moreover have "fmaf (val_2 v) (val_0 v) (fneg (mulf (val_0 v) (val_2 v)))
      = Fin False 0 (qmin binary32)"
    by (rule ffma_cancel) (simp_all add: sw h)
  moreover have "fmaf (val_0 v) (val_1 v) (fneg (mulf (val_1 v) (val_0 v)))
      = Fin False 0 (qmin binary32)"
    by (rule ffma_cancel) (simp_all add: sw h)
  ultimately show "cross_fma v v = Vector3_default"
    by (simp add: cross_fma_def Vector3_default_def f32_values qmin_binary32)
next
  have c: "\<And>p q p' q'. p' = p \<Longrightarrow> q' = q \<Longrightarrow>
      flt (fabs (subf (subf p q) (fneg (subf q' p')))) FLT_EPSILON \<longleftrightarrow> is_finite (subf p q)"
    using close_if_same_magnitude [OF fsub_swap] by simp
  show "Vector3_eq (cross a b) (Vector3_neg (cross b a)) \<longleftrightarrow>
      is_finite (val_0 (cross a b)) \<and> is_finite (val_1 (cross a b))
      \<and> is_finite (val_2 (cross a b))"
    by (simp add: Vector3_eq_def Vector3_neg_def cross_def c fmul_commute)
next
  show "cross (Vector3_of (f32 1) (f32 0) (f32 0)) (Vector3_of (f32 0) (f32 1) (f32 0))
        = Vector3_of (f32 0) (f32 0) (f32 1)"
    by (simp add: cross_def Vector3_of_def f32_values fp_eval)
next
  show "cross_fma (Vector3_of (f32 16777215) (f32 16777215) (f32 0))
        (Vector3_of (f32 16777215) (f32 16777215) (f32 0))
        = Vector3_of (f32 0) (f32 0) (f32 1)"
    by (simp add: cross_fma_def Vector3_of_def fp_eval)
next
  show "\<not> Vector3_eq
        (cross_fma (Vector3_of (f32 16777215) (f32 16777215) (f32 0))
           (Vector3_of (f32 16777215) (f32 16777215) (f32 0)))
        (Vector3_neg (cross_fma (Vector3_of (f32 16777215) (f32 16777215) (f32 0))
           (Vector3_of (f32 16777215) (f32 16777215) (f32 0))))"
    by (simp add: cross_fma_def Vector3_of_def Vector3_eq_def Vector3_neg_def fp_eval)
next
  show "cross_fma (Vector3_of (f32 1) (f32 0) (f32 0)) (Vector3_of (f32 0) (f32 1) (f32 0))
        = Vector3_of (f32 0) (f32 0) (f32 1)"
    by (simp add: cross_fma_def Vector3_of_def fp_eval)
qed

theorem cross_self_and_anticommutative_witness:
  "cross (Vector3_of (f32 2) (f32 3) (f32 4)) (Vector3_of (f32 2) (f32 3) (f32 4))
     = Vector3_default
   \<and> Vector3_eq (cross (Vector3_of (f32 2) (f32 3) (f32 4)) (Vector3_of (f32 5) (f32 1) (f32 0)))
       (Vector3_neg (cross (Vector3_of (f32 5) (f32 1) (f32 0)) (Vector3_of (f32 2) (f32 3) (f32 4))))
   \<and> cross_fma (Vector3_of (f32 2) (f32 3) (f32 4)) (Vector3_of (f32 2) (f32 3) (f32 4))
     = Vector3_default"
proof -
  let ?v = "Vector3_of (f32 2) (f32 3) (f32 4)"
  let ?w = "Vector3_of (f32 5) (f32 1) (f32 0)"
  have sel: "val_0 ?v = f32 2" "val_1 ?v = f32 3" "val_2 ?v = f32 4"
    by (simp_all add: Vector3_of_def)
  have m: "mulf (f32 3) (f32 4) = Fin False 12582912 (- 20)"
    "mulf (f32 4) (f32 2) = Fin False 8388608 (- 20)"
    "mulf (f32 2) (f32 3) = Fin False 12582912 (- 21)"
    by (simp_all add: fp_eval)
  have v: "valof (Fin False 12582912 (- 20)) = valof (f32 3) * valof (f32 4)"
    "valof (Fin False 8388608 (- 20)) = valof (f32 4) * valof (f32 2)"
    "valof (Fin False 12582912 (- 21)) = valof (f32 2) * valof (f32 3)"
    by (simp_all add: f32_values power_int_minus)
  have fin: "is_finite (mulf (f32 3) (f32 4))" "is_finite (mulf (f32 4) (f32 2))"
    "is_finite (mulf (f32 2) (f32 3))"
    by (simp_all only: m) (simp_all add: is_finite_def)
  have val: "valof (mulf (f32 3) (f32 4)) = valof (f32 3) * valof (f32 4)"
    "valof (mulf (f32 4) (f32 2)) = valof (f32 4) * valof (f32 2)"
    "valof (mulf (f32 2) (f32 3)) = valof (f32 2) * valof (f32 3)"
    by (simp_all only: m v)
  have fin': "is_finite (val_0 (cross ?v ?w))" "is_finite (val_1 (cross ?v ?w))"
    "is_finite (val_2 (cross ?v ?w))"
    by (simp_all add: cross_def Vector3_of_def is_finite_def f32_values fp_eval)
  note t = cross_self_and_anticommutative [of ?v ?v ?w, unfolded sel]
  from t fin have "cross ?v ?v = Vector3_default" by blast
  moreover from t fin' have "Vector3_eq (cross ?v ?w) (Vector3_neg (cross ?w ?v))" by blast
  moreover from t fin val have "cross_fma ?v ?v = Vector3_default" by blast
  ultimately show ?thesis by simp
qed

text \<open>
  C6, as stated, fails: for \<open>v = (2^64, 2^64)\<close> the product \<open>x*y\<close> overflows to \<open>\<infinity>\<close>. Built
  without contraction, \<open>det(v, v)\<close> is \<open>\<infinity> - \<infinity> = NaN\<close>; built with contraction it is
  \<open>fmaf(2^64, 2^64, -\<infinity>) = -\<infinity>\<close>. Neither is 0.
\<close>

theorem det_self_overflow:
  "det (Vector2_of (f32 (2 ^ 64)) (f32 (2 ^ 64))) (Vector2_of (f32 (2 ^ 64)) (f32 (2 ^ 64))) = NaN
   \<and> det (Vector2_of (f32 (2 ^ 64)) (f32 (2 ^ 64))) (Vector2_of (f32 (2 ^ 64)) (f32 (2 ^ 64)))
       \<noteq> f32 0
   \<and> det_fma (Vector2_of (f32 (2 ^ 64)) (f32 (2 ^ 64)))
        (Vector2_of (f32 (2 ^ 64)) (f32 (2 ^ 64))) = Inf True
   \<and> det_fma (Vector2_of (f32 (2 ^ 64)) (f32 (2 ^ 64)))
        (Vector2_of (f32 (2 ^ 64)) (f32 (2 ^ 64))) \<noteq> f32 0"
  by (simp add: det_def det_fma_def Vector2_of_def fp_eval)

text \<open>
  C6, amended. Built without contraction of floating-point expressions (both products
  and the difference rounded to \<open>float\<close> one by one): \<open>det(v, v)\<close> is 0 when the product
  \<open>x*y\<close> of the components of \<open>v\<close> is finite (no overflow, no NaN), and NaN otherwise.

  Built with contraction (\<open>x*y - y*x\<close> computed as \<open>fmaf(x, y, -(y*x))\<close>): \<open>det(v, v)\<close> is 0
  when the product \<open>x*y\<close> is finite and exact in \<open>float\<close>, that is, when rounding does not
  change it; otherwise it is the rounding error of the product and need not be 0:
  \<open>16106128 * 2^-55\<close>, about \<open>4.47e-10\<close>, for \<open>v = (0.1f, 0.3f)\<close>, and \<open>1\<close> for
  \<open>v = (16777215, 16777215)\<close>. (\<open>0.1f\<close> is \<open>13421773 * 2^-27\<close> and \<open>0.3f\<close> is
  \<open>10066330 * 2^-25\<close>.)
\<close>

theorem det_self:
  "det v v = (if is_finite (mulf (x_coord v) (y_coord v)) then f32 0 else NaN)
   \<and> (is_finite (mulf (x_coord v) (y_coord v))
        \<and> valof (mulf (x_coord v) (y_coord v)) = valof (x_coord v) * valof (y_coord v)
      \<longrightarrow> det_fma v v = f32 0)
   \<and> det_fma (Vector2_of (Fin False 13421773 (- 27)) (Fin False 10066330 (- 25)))
        (Vector2_of (Fin False 13421773 (- 27)) (Fin False 10066330 (- 25)))
      = Fin False 16106128 (- 55)
   \<and> det_fma (Vector2_of (f32 16777215) (f32 16777215))
        (Vector2_of (f32 16777215) (f32 16777215)) = f32 1"
proof (intro conjI impI)
  show "det v v = (if is_finite (mulf (x_coord v) (y_coord v)) then f32 0 else NaN)"
    by (simp add: det_def fmul_commute [of binary32 "y_coord v" "x_coord v"] fsub_self
      f32_values qmin_binary32)
next
  assume "is_finite (mulf (x_coord v) (y_coord v))
        \<and> valof (mulf (x_coord v) (y_coord v)) = valof (x_coord v) * valof (y_coord v)"
  then have "is_finite (mulf (y_coord v) (x_coord v))"
    "valof (mulf (y_coord v) (x_coord v)) = valof (x_coord v) * valof (y_coord v)"
    by (simp_all add: fmul_commute [of binary32 "y_coord v" "x_coord v"])
  then have "fmaf (x_coord v) (y_coord v) (fneg (mulf (y_coord v) (x_coord v)))
      = Fin False 0 (qmin binary32)"
    by (rule ffma_cancel)
  then show "det_fma v v = f32 0"
    by (simp add: det_fma_def f32_values qmin_binary32)
next
  show "det_fma (Vector2_of (Fin False 13421773 (- 27)) (Fin False 10066330 (- 25)))
        (Vector2_of (Fin False 13421773 (- 27)) (Fin False 10066330 (- 25)))
      = Fin False 16106128 (- 55)"
    by (simp add: det_fma_def Vector2_of_def fp_eval)
next
  show "det_fma (Vector2_of (f32 16777215) (f32 16777215))
        (Vector2_of (f32 16777215) (f32 16777215)) = f32 1"
    by (simp add: det_fma_def Vector2_of_def fp_eval)
qed

theorem det_self_witness:
  "det (Vector2_of (f32 3) (f32 4)) (Vector2_of (f32 3) (f32 4)) = f32 0
   \<and> det_fma (Vector2_of (f32 3) (f32 4)) (Vector2_of (f32 3) (f32 4)) = f32 0"
proof -
  have m: "mulf (f32 3) (f32 4) = Fin False 12582912 (- 20)"
    by (simp add: fp_eval)
  have "valof (Fin False 12582912 (- 20)) = valof (f32 3) * valof (f32 4)"
    by (simp add: f32_values power_int_minus)
  with m show ?thesis
    using det_self [of "Vector2_of (f32 3) (f32 4)"]
    by (simp add: Vector2_of_def is_finite_def)
qed

text \<open>
  C7. For every vector \<open>v\<close>, of either type, the dot product of \<open>v\<close> with itself is
  \<open>absSq(v)\<close>: the two are the same computation.
\<close>

theorem dot_self_is_absSq:
  "Vector2_dot v v = absSq_Vector2 v \<and> Vector3_dot w w = absSq_Vector3 w"
  by (simp add: absSq_Vector2_def absSq_Vector3_def)

text \<open>
  C8. Scalar division computes the reciprocal \<open>1.0f / s\<close> and multiplies every component by
  it, for \<open>Vector2\<close> and \<open>Vector3\<close>. The divisor is not compared with zero and no error is
  raised: dividing \<open>(1, 0)\<close> by \<open>0\<close> gives \<open>(\<infinity>, NaN)\<close>, and \<open>(1, 0, -1)\<close> by \<open>0\<close> gives
  \<open>(\<infinity>, NaN, -\<infinity>)\<close>.
\<close>

theorem scalar_division_by_reciprocal:
  "Vector2_div v s =
     \<lparr>x_coord = mulf (x_coord v) (divf (f32 1) s), y_coord = mulf (y_coord v) (divf (f32 1) s)\<rparr>
   \<and> Vector3_div w s =
     \<lparr>val_0 = mulf (val_0 w) (divf (f32 1) s), val_1 = mulf (val_1 w) (divf (f32 1) s),
      val_2 = mulf (val_2 w) (divf (f32 1) s)\<rparr>
   \<and> Vector2_div (Vector2_of (f32 1) (f32 0)) (f32 0) = Vector2_of (Inf False) NaN
   \<and> Vector3_div (Vector3_of (f32 1) (f32 0) (fneg (f32 1))) (f32 0)
        = Vector3_of (Inf False) NaN (Inf True)"
  by (simp add: Vector2_div_def Vector3_div_def Vector2_of_def Vector3_of_def f32_values Let_def)




text \<open>
  C10. Each in-place operator returns a reference to the receiver and leaves in it what
  the pure operator gives on the values before the call; nothing else in the store
  changes. This holds also when the argument of \<open>+=\<close> or \<open>-=\<close> is the receiver itself.
\<close>

theorem in_place_operators_agree:
  "Vector2_mul_assign h this s = (this, h(this := Vector2_mul (h this) s))
   \<and> Vector2_div_assign h this s = (this, h(this := Vector2_div (h this) s))
   \<and> Vector2_add_assign h this u = (this, h(this := Vector2_add (h this) (h u)))
   \<and> Vector2_sub_assign h this u = (this, h(this := Vector2_sub (h this) (h u)))
   \<and> Vector3_mul_assign g this s = (this, g(this := Vector3_mul (g this) s))
   \<and> Vector3_div_assign g this s = (this, g(this := Vector3_div (g this) s))
   \<and> Vector3_add_assign g this u = (this, g(this := Vector3_add (g this) (g u)))
   \<and> Vector3_sub_assign g this u = (this, g(this := Vector3_sub (g this) (g u)))"
  by (simp add: Vector2_mul_assign_def Vector2_div_assign_def Vector2_add_assign_def
      Vector2_sub_assign_def Vector3_mul_assign_def Vector3_div_assign_def
      Vector3_add_assign_def Vector3_sub_assign_def Vector2_mul_def Vector2_div_def
      Vector2_add_def Vector2_sub_def Vector3_mul_def Vector3_div_def Vector3_add_def
      Vector3_sub_def Let_def fun_eq_iff)

text \<open>
  C3. \<open>angleTo\<close> is the difference \<open>atan2(o.y, o.x) - atan2(t.y, t.x)\<close>, less \<open>\<pi>\<close> when the
  difference is above \<open>\<pi>\<close>, plus \<open>2\<pi>\<close> when it is at or below \<open>-\<pi>\<close>, and the difference itself
  otherwise, whatever \<open>atan2\<close> returns.
\<close>

theorem angleTo_wraps_as_specified:
  "angleTo atan2 t other = angleTo_spec atan2 t other"
  by (simp add: angleTo_def angleTo_spec_def polarAngle_def Let_def)

text \<open>
  The two wrapping branches, with the values the C library gives at the two sides of the
  negative x-axis, \<open>atan2(-0, -1) = -\<pi>\<close> and \<open>atan2(+0, -1) = \<pi>\<close>: from \<open>(-1, -0)\<close> to \<open>(-1, +0)\<close>
  the difference \<open>2\<pi>\<close> is above \<open>\<pi>\<close> and the result is \<open>2\<pi> - \<pi> = \<pi>\<close>; the other way round the
  difference \<open>-2\<pi>\<close> is below \<open>-\<pi>\<close> and the result is \<open>-2\<pi> + 2\<pi> = 0\<close>.
\<close>

theorem angleTo_wraps_witness:
  "angleTo (\<lambda>b a. if b = Fin True 0 (- 149) then fneg M_PI else M_PI)
     (Vector2_of (fneg (f32 1)) (fneg (f32 0))) (Vector2_of (fneg (f32 1)) (f32 0)) = M_PI
   \<and> angleTo (\<lambda>b a. if b = Fin True 0 (- 149) then fneg M_PI else M_PI)
     (Vector2_of (fneg (f32 1)) (f32 0)) (Vector2_of (fneg (f32 1)) (fneg (f32 0))) = f64 0"
  using angleTo_wraps_as_specified [of "\<lambda>b a. if b = Fin True 0 (- 149) then fneg M_PI else M_PI"
      "Vector2_of (fneg (f32 1)) (fneg (f32 0))" "Vector2_of (fneg (f32 1)) (f32 0)"]
    angleTo_wraps_as_specified [of "\<lambda>b a. if b = Fin True 0 (- 149) then fneg M_PI else M_PI"
      "Vector2_of (fneg (f32 1)) (f32 0)" "Vector2_of (fneg (f32 1)) (fneg (f32 0))"]
  by (simp add: angleTo_spec_def Vector2_of_def f32_values M_PI_value fp_eval)

end
